theory Spec2Isabelle
  imports Main
begin

section \<open>The YouCompleteMe configuration template of YCM-Generator\<close>

text \<open>
  A shallow embedding of \<^verbatim>\<open>template.py\<close>. Python text is modelled by \<^typ>\<open>string\<close>: a
  character is a code point below 256, and \<open>lower\<close> and \<open>strip\<close> below are what
  \<^verbatim>\<open>str.lower\<close> and \<^verbatim>\<open>str.strip\<close> of Python 3 do on such text. Everything the script asks
  the operating system is a field of \<open>os_env\<close> or is computed from the directory tree it
  holds.
\<close>

subsection \<open>Python strings\<close>

definition startswith :: "string \<Rightarrow> string \<Rightarrow> bool" where
  "startswith s p = (take (length p) s = p)"

definition endswith :: "string \<Rightarrow> string \<Rightarrow> bool" where
  "endswith s p = (length p \<le> length s \<and> drop (length s - length p) s = p)"

text \<open>
  The characters below 256 that \<^verbatim>\<open>str.lower\<close> changes: the letters \<^verbatim>\<open>A\<close> to \<^verbatim>\<open>Z\<close>, and the code
  points \<^verbatim>\<open>C0\<close> to \<^verbatim>\<open>DE\<close> without \<^verbatim>\<open>D7\<close>; each goes to the character 32 places after it.
\<close>

definition uppercase :: string where
  "uppercase =
     ''ABCDEFGHIJKLMNOPQRSTUVWXYZ''
     @ [CHR 0xC0, CHR 0xC1, CHR 0xC2, CHR 0xC3, CHR 0xC4, CHR 0xC5, CHR 0xC6, CHR 0xC7,
        CHR 0xC8, CHR 0xC9, CHR 0xCA, CHR 0xCB, CHR 0xCC, CHR 0xCD, CHR 0xCE, CHR 0xCF,
        CHR 0xD0, CHR 0xD1, CHR 0xD2, CHR 0xD3, CHR 0xD4, CHR 0xD5, CHR 0xD6,
        CHR 0xD8, CHR 0xD9, CHR 0xDA, CHR 0xDB, CHR 0xDC, CHR 0xDD, CHR 0xDE]"

definition lowercase :: string where
  "lowercase =
     ''abcdefghijklmnopqrstuvwxyz''
     @ [CHR 0xE0, CHR 0xE1, CHR 0xE2, CHR 0xE3, CHR 0xE4, CHR 0xE5, CHR 0xE6, CHR 0xE7,
        CHR 0xE8, CHR 0xE9, CHR 0xEA, CHR 0xEB, CHR 0xEC, CHR 0xED, CHR 0xEE, CHR 0xEF,
        CHR 0xF0, CHR 0xF1, CHR 0xF2, CHR 0xF3, CHR 0xF4, CHR 0xF5, CHR 0xF6,
        CHR 0xF8, CHR 0xF9, CHR 0xFA, CHR 0xFB, CHR 0xFC, CHR 0xFD, CHR 0xFE]"

definition lower_char :: "char \<Rightarrow> char" where
  "lower_char c = (case map_of (zip uppercase lowercase) c of Some d \<Rightarrow> d | None \<Rightarrow> c)"

definition lower :: "string \<Rightarrow> string" where
  "lower s = map lower_char s"

text \<open>\<^verbatim>\<open>s.rfind(c)\<close> for a one-character \<open>c\<close>: the last index of \<open>c\<close>, or \<open>-1\<close>.\<close>

definition rfind :: "string \<Rightarrow> char \<Rightarrow> int" where
  "rfind s c =
     (if c \<in> set s then int (length s - 1 - length (takeWhile (\<lambda>x. x \<noteq> c) (rev s))) else - 1)"

text \<open>\<^verbatim>\<open>s.find(sub)\<close>: the first index at which \<open>sub\<close> occurs, or \<open>-1\<close>.\<close>

fun find_at :: "string \<Rightarrow> nat \<Rightarrow> string \<Rightarrow> int" where
  "find_at sub i [] = (if sub = [] then int i else - 1)"
| "find_at sub i (c # cs) = (if startswith (c # cs) sub then int i else find_at sub (Suc i) cs)"

definition find_str :: "string \<Rightarrow> string \<Rightarrow> int" where
  "find_str s sub = find_at sub 0 s"

text \<open>
  The characters below 256 for which \<^verbatim>\<open>str.isspace\<close> holds, among them the next-line
  character \<^verbatim>\<open>85\<close> and the no-break space \<^verbatim>\<open>A0\<close>; \<^verbatim>\<open>strip()\<close> removes them at both ends.
\<close>

definition isspace :: "char \<Rightarrow> bool" where
  "isspace c = (c \<in> set [CHR 0x09, CHR 0x0A, CHR 0x0B, CHR 0x0C, CHR 0x0D,
                          CHR 0x1C, CHR 0x1D, CHR 0x1E, CHR 0x1F, CHR 0x20,
                          CHR 0x85, CHR 0xA0])"

definition strip :: "string \<Rightarrow> string" where
  "strip s = rev (dropWhile isspace (rev (dropWhile isspace s)))"

text \<open>\<^verbatim>\<open>s.split(sep)\<close> for a one-character separator; \<open>cur\<close> is the piece being read.\<close>

fun split_loop :: "char \<Rightarrow> string \<Rightarrow> string \<Rightarrow> string list" where
  "split_loop sep cur [] = [cur]"
| "split_loop sep cur (x # xs) =
     (if x = sep then cur # split_loop sep [] xs else split_loop sep (cur @ [x]) xs)"

definition str_split :: "string \<Rightarrow> char \<Rightarrow> string list" where
  "str_split s sep = split_loop sep [] s"

subsection \<open>posixpath\<close>

definition path_join :: "string \<Rightarrow> string \<Rightarrow> string" where
  "path_join a b =
     (if startswith b ''/'' then b
      else if a = [] \<or> endswith a ''/'' then a @ b
      else a @ ''/'' @ b)"

definition rstrip_sep :: "string \<Rightarrow> string" where
  "rstrip_sep s = rev (dropWhile (\<lambda>c. c = CHR ''/'') (rev s))"

definition path_split :: "string \<Rightarrow> string \<times> string" where
  "path_split p =
     (let i = nat (rfind p CHR ''/'' + 1);
          head = take i p;
          tail = drop i p
      in (if head \<noteq> [] \<and> head \<noteq> replicate (length head) CHR ''/'' then rstrip_sep head else head,
          tail))"

definition dirname :: "string \<Rightarrow> string" where
  "dirname p = fst (path_split p)"

definition basename :: "string \<Rightarrow> string" where
  "basename p = drop (nat (rfind p CHR ''/'' + 1)) p"

text \<open>
  \<^verbatim>\<open>posixpath.splitext\<close>: the extension starts at the last dot of the last path component,
  unless only dots stand before it in that component.
\<close>

definition splitext :: "string \<Rightarrow> string \<times> string" where
  "splitext p =
     (let sepIndex = rfind p CHR ''/'';
          dotIndex = rfind p CHR ''.''
      in if dotIndex > sepIndex
            \<and> list_ex (\<lambda>c. c \<noteq> CHR ''.'') (drop (nat (sepIndex + 1)) (take (nat dotIndex) p))
         then (take (nat dotIndex) p, drop (nat dotIndex) p)
         else (p, []))"

text \<open>\<^verbatim>\<open>posixpath.normpath\<close>; \<open>comps\<close> is read left to right, \<open>new_comps\<close> is the stack built.\<close>

fun normpath_loop :: "bool \<Rightarrow> string list \<Rightarrow> string list \<Rightarrow> string list" where
  "normpath_loop initial_slashes new_comps [] = new_comps"
| "normpath_loop initial_slashes new_comps (c # comps) =
     (if c = [] \<or> c = ''.'' then normpath_loop initial_slashes new_comps comps
      else if c \<noteq> ''..'' \<or> (\<not> initial_slashes \<and> new_comps = [])
              \<or> (new_comps \<noteq> [] \<and> last new_comps = ''..'')
      then normpath_loop initial_slashes (new_comps @ [c]) comps
      else if new_comps \<noteq> [] then normpath_loop initial_slashes (butlast new_comps) comps
      else normpath_loop initial_slashes new_comps comps)"

fun join_sep :: "string list \<Rightarrow> string" where
  "join_sep [] = []"
| "join_sep [c] = c"
| "join_sep (c # d # cs) = c @ ''/'' @ join_sep (d # cs)"

definition normpath :: "string \<Rightarrow> string" where
  "normpath path =
     (if path = [] then ''.''
      else
        let initial_slashes =
              (if startswith path ''/''
               then (if startswith path ''//'' \<and> \<not> startswith path ''///'' then 2 else 1)
               else (0::nat));
            comps = normpath_loop (initial_slashes \<noteq> 0) [] (str_split path CHR ''/'');
            joined = replicate initial_slashes CHR ''/'' @ join_sep comps
        in if joined = [] then ''.'' else joined)"

subsection \<open>The operating system\<close>

text \<open>
  A directory tree without links. A directory lists its entries in the order
  \<^verbatim>\<open>os.scandir\<close> reports them; a name stands for the first entry that bears it.
\<close>

datatype fsnode = File | Dir "(string \<times> fsnode) list"

datatype error = OSError | AttributeError

text \<open>
  \<open>fs_root\<close> is the tree at \<^verbatim>\<open>/\<close>, \<open>script_file\<close> the value of \<^verbatim>\<open>__file__\<close>. \<open>getcwd\<close> is the
  working directory, \<open>None\<close> when \<^verbatim>\<open>os.getcwd\<close> raises because the directory is gone; the
  error is a \<^verbatim>\<open>FileNotFoundError\<close>, which \<^verbatim>\<open>except OSError\<close> catches, and \<open>OSError\<close> stands for
  it. \<open>glob_glob\<close> gives the matches \<^verbatim>\<open>glob.glob\<close> returns for a
  pattern and is not derived from the tree. \<open>clang_output\<close> is the decoded text
  \<^verbatim>\<open>clang -v -E -x c++ -\<close> writes to its two streams, \<open>None\<close> when the process cannot be
  started.
\<close>

record os_env =
  fs_root :: fsnode
  getcwd :: "string option"
  script_file :: string
  glob_glob :: "string \<Rightarrow> string list"
  clang_output :: "string option"

text \<open>
  Path resolution: the first argument holds the node reached and its ancestors up to
  the root. Any further component below a file fails, also an empty one (a trailing
  slash).
\<close>

fun resolve :: "fsnode list \<Rightarrow> string list \<Rightarrow> fsnode option" where
  "resolve [] comps = None"
| "resolve (cur # up) [] = Some cur"
| "resolve (cur # up) (c # cs) =
     (case cur of
        File \<Rightarrow> None
      | Dir es \<Rightarrow>
          if c = [] \<or> c = ''.'' then resolve (cur # up) cs
          else if c = ''..'' then resolve (if up = [] then [cur] else up) cs
          else (case map_of es c of
                  None \<Rightarrow> None
                | Some n \<Rightarrow> resolve (n # cur # up) cs))"

text \<open>A relative path is looked up from the working directory, and not found without one.\<close>

definition lookup_path :: "os_env \<Rightarrow> string \<Rightarrow> fsnode option" where
  "lookup_path env p =
     (if p = [] then None
      else if startswith p ''/'' then resolve [fs_root env] (str_split p CHR ''/'')
      else (case getcwd env of
              None \<Rightarrow> None
            | Some cwd \<Rightarrow> resolve [fs_root env] (str_split (path_join cwd p) CHR ''/'')))"

definition os_path_exists :: "os_env \<Rightarrow> string \<Rightarrow> bool" where
  "os_path_exists env p = (lookup_path env p \<noteq> None)"

text \<open>\<^verbatim>\<open>os.path.abspath\<close> asks for the working directory when the path is relative.\<close>

definition abspath :: "os_env \<Rightarrow> string \<Rightarrow> error + string" where
  "abspath env path =
     (if startswith path ''/'' then Inr (normpath path)
      else (case getcwd env of
              None \<Rightarrow> Inl OSError
            | Some cwd \<Rightarrow> Inr (normpath (path_join cwd path))))"

text \<open>
  \<^verbatim>\<open>os.walk\<close>, top down: the triple of a directory, then the walks of its subdirectories
  in listing order. A top that is no directory yields nothing.
\<close>

fun walk_node :: "string \<Rightarrow> fsnode \<Rightarrow> (string \<times> string list \<times> string list) list" where
  "walk_node t File = []"
| "walk_node t (Dir es) =
     (t, [n. (n, Dir _) \<leftarrow> es], [n. (n, File) \<leftarrow> es])
       # concat (map (\<lambda>(n, d). walk_node (path_join t n) d) es)"

definition os_walk :: "os_env \<Rightarrow> string \<Rightarrow> (string \<times> string list \<times> string list) list" where
  "os_walk env t = (case lookup_path env t of Some (Dir es) \<Rightarrow> walk_node t (Dir es) | _ \<Rightarrow> [])"

subsection \<open>Constants and configuration of the template\<close>

definition SOURCE_EXTENSIONS :: "string list" where
  "SOURCE_EXTENSIONS = [''.cpp'', ''.cxx'', ''.cc'', ''.c'', ''.m'', ''.mm'']"

definition HEADER_EXTENSIONS :: "string list" where
  "HEADER_EXTENSIONS = [''.h'', ''.hxx'', ''.hpp'', ''.hh'']"

text \<open>
  The lines a user edits: the two switches, the static \<^verbatim>\<open>flags\<close> list the generator
  fills in, and \<^verbatim>\<open>compilation_database_folder\<close>. \<open>template_options\<close> holds the values the
  template is shipped with.
\<close>

record options =
  GUESS_BUILD_DIRECTORY :: bool
  GUESS_INCLUDE_PATH :: bool
  static_flags :: "string list"
  compilation_database_folder :: string

definition template_options :: options where
  "template_options =
     \<lparr>GUESS_BUILD_DIRECTORY = False, GUESS_INCLUDE_PATH = True, static_flags = [],
      compilation_database_folder = []\<rparr>"

subsection \<open>LoadSystemIncludes\<close>

text \<open>
  The regular expression, compiled with \<^verbatim>\<open>re.DOTALL\<close>: the first marker with its three
  dots, which match any character, a lazy group, the second marker.
\<close>

datatype re_item = Lit char | AnyChar

definition search_starts_here :: "re_item list" where
  "search_starts_here =
     map Lit ''#include <'' @ [AnyChar, AnyChar, AnyChar] @ map Lit ''> search starts here:''"

definition End_of_search_list :: string where
  "End_of_search_list = ''End of search list''"

text \<open>The rest of the text after a match of the items at its start.\<close>

fun match_items :: "re_item list \<Rightarrow> string \<Rightarrow> string option" where
  "match_items [] s = Some s"
| "match_items (i # items) [] = None"
| "match_items (Lit c # items) (x # xs) = (if x = c then match_items items xs else None)"
| "match_items (AnyChar # items) (x # xs) = match_items items xs"

text \<open>The lazy group: the shortest text after which the second marker stands.\<close>

fun lazy_group :: "string \<Rightarrow> string option" where
  "lazy_group [] = (if startswith [] End_of_search_list then Some [] else None)"
| "lazy_group (x # xs) =
     (if startswith (x # xs) End_of_search_list then Some []
      else map_option (\<lambda>g. x # g) (lazy_group xs))"

definition match_here :: "string \<Rightarrow> string option" where
  "match_here s = (case match_items search_starts_here s of None \<Rightarrow> None | Some r \<Rightarrow> lazy_group r)"

text \<open>\<^verbatim>\<open>re.search\<close>: the match at the leftmost position that has one; its group \<^verbatim>\<open>list\<close>.\<close>

fun re_search :: "string \<Rightarrow> string option" where
  "re_search [] = match_here []"
| "re_search (x # xs) =
     (case match_here (x # xs) of Some g \<Rightarrow> Some g | None \<Rightarrow> re_search xs)"

fun includes_loop :: "string list \<Rightarrow> string list \<Rightarrow> string list" where
  "includes_loop [] includes = includes"
| "includes_loop (p0 # ps) includes =
     (let p = strip p0
      in if length p > 0 \<and> find_str p ''(framework directory)'' < 0
         then includes_loop ps ((includes @ [''-isystem'']) @ [p])
         else includes_loop ps includes)"

text \<open>
  \<open>Inl OSError\<close>: the compiler cannot be started. \<open>Inl AttributeError\<close>: the search found
  nothing, and \<^verbatim>\<open>.group\<close> is asked of \<^verbatim>\<open>None\<close>.
\<close>

definition LoadSystemIncludes :: "os_env \<Rightarrow> error + string list" where
  "LoadSystemIncludes env =
     (case clang_output env of
        None \<Rightarrow> Inl OSError
      | Some output \<Rightarrow>
          (case re_search output of
             None \<Rightarrow> Inl AttributeError
           | Some group_list \<Rightarrow> Inr (includes_loop (str_split group_list CHR 0x0A) [])))"

subsection \<open>The directory guesses\<close>

text \<open>
  A call that may raise, and what is done with its value: an error of the call leaves
  the calling function at that place.
\<close>

definition bind_result :: "error + 'a \<Rightarrow> ('a \<Rightarrow> error + 'b) \<Rightarrow> error + 'b" where
  "bind_result r f = (case r of Inl e \<Rightarrow> Inl e | Inr x \<Rightarrow> f x)"

definition DirectoryOfThisScript :: "os_env \<Rightarrow> error + string" where
  "DirectoryOfThisScript env =
     bind_result (abspath env (script_file env)) (\<lambda>path. Inr (dirname path))"

text \<open>Each call of \<^verbatim>\<open>DirectoryOfThisScript()\<close> in the source is a call here, at the same place.\<close>

definition GuessBuildDirectory :: "os_env \<Rightarrow> error + string" where
  "GuessBuildDirectory env =
     bind_result (DirectoryOfThisScript env) (\<lambda>directory.
       let result = path_join directory ''build''
       in if os_path_exists env result then Inr result
          else
            bind_result (DirectoryOfThisScript env) (\<lambda>directory.
              let result =
                    glob_glob env
                      (path_join (path_join (path_join (path_join directory
                         ''..'') ''..'') ''*'') ''compile_commands.json'')
              in if result = [] then Inl OSError
                 else if 1 \<noteq> length result then Inl OSError
                 else Inr (fst (path_split (result ! 0)))))"

text \<open>
  A Python set of paths is a list without repetitions, in the order of insertion. The
  order in which Python iterates over a set is not specified; the theorems below that
  speak of more than one path speak of the set of the paths only.
\<close>

definition set_add :: "'a list \<Rightarrow> 'a \<Rightarrow> 'a list" where
  "set_add s x = (if x \<in> set s then s else s @ [x])"

text \<open>
  \<open>include_extensions\<close> is \<open>None\<close> or a set of extensions; it counts as true when it is a
  set that is not empty.
\<close>

definition truthy :: "string set option \<Rightarrow> bool" where
  "truthy include_extensions =
     (case include_extensions of None \<Rightarrow> False | Some exts \<Rightarrow> exts \<noteq> {})"

definition subdir_extensions :: "string list \<Rightarrow> string set" where
  "subdir_extensions file_list =
     set (map (\<lambda>f. lower (snd (splitext f))) (filter (\<lambda>f. snd (splitext f) \<noteq> []) file_list))"

fun traverse_loop ::
  "string set option \<Rightarrow> (string \<times> string list \<times> string list) list \<Rightarrow> bool \<Rightarrow> string list
     \<Rightarrow> string list" where
  "traverse_loop include_extensions [] is_root result = result"
| "traverse_loop include_extensions ((root_dir, subdirs, file_list) # rest) is_root result =
     (if \<not> is_root then
        (case include_extensions of
           Some exts \<Rightarrow>
             if exts \<noteq> {} then
               (if subdir_extensions file_list \<inter> exts \<noteq> {}
                then traverse_loop include_extensions rest is_root (set_add result root_dir)
                else traverse_loop include_extensions rest is_root result)
             else traverse_loop include_extensions rest is_root (set_add result root_dir)
         | None \<Rightarrow> traverse_loop include_extensions rest is_root (set_add result root_dir))
      else traverse_loop include_extensions rest False result)"

definition TraverseByDepth :: "os_env \<Rightarrow> string \<Rightarrow> string set option \<Rightarrow> string list" where
  "TraverseByDepth env root_path include_extensions =
     (let include_extensions =
            (if truthy include_extensions then map_option (\<lambda>exts. lower ` exts) include_extensions
             else include_extensions)
      in traverse_loop include_extensions (os_walk env root_path) True [])"

fun guess_candidates_loop :: "os_env \<Rightarrow> string list \<Rightarrow> error + string" where
  "guess_candidates_loop env [] = Inl OSError"
| "guess_candidates_loop env (candidate # rest) =
     bind_result (DirectoryOfThisScript env) (\<lambda>directory.
       let result = path_join directory candidate
       in if os_path_exists env result then Inr result else guess_candidates_loop env rest)"

definition GuessSourceDirectory :: "os_env \<Rightarrow> error + string" where
  "GuessSourceDirectory env =
     bind_result (DirectoryOfThisScript env) (\<lambda>directory.
       guess_candidates_loop env [''src'', ''source'', ''lib'', basename directory])"

text \<open>The loop over \<^verbatim>\<open>include\<close> and \<^verbatim>\<open>includes\<close>; it returns \<open>external_include_dir_set\<close>.\<close>

fun external_loop :: "os_env \<Rightarrow> string list \<Rightarrow> error + string list" where
  "external_loop env [] = Inr []"
| "external_loop env (external # rest) =
     bind_result (DirectoryOfThisScript env) (\<lambda>directory.
       let external_include_path = path_join directory external
       in if os_path_exists env external_include_path
          then Inr (TraverseByDepth env external_include_path None)
          else external_loop env rest)"

text \<open>
  The \<^verbatim>\<open>try\<close> block catches \<^verbatim>\<open>OSError\<close> only, whichever call raised it; any other error
  would leave the function. The loop after it stands outside the block.
\<close>

definition GuessIncludeDirectory :: "os_env \<Rightarrow> error + string list" where
  "GuessIncludeDirectory env =
     (case (case bind_result (DirectoryOfThisScript env) (\<lambda>directory.
                   bind_result (GuessSourceDirectory env) (\<lambda>guessed.
                     Inr (TraverseByDepth env (path_join directory guessed)
                            (Some (set HEADER_EXTENSIONS))))) of
              Inr found \<Rightarrow> Inr found
            | Inl OSError \<Rightarrow> Inr []
            | Inl e \<Rightarrow> Inl e) of
        Inl e \<Rightarrow> Inl e
      | Inr include_dir_set \<Rightarrow>
          bind_result (external_loop env [''include'', ''includes''])
            (\<lambda>external_include_dir_set.
               let result = [];
                   result = (if include_dir_set \<noteq> []
                             then result @ map (\<lambda>include_dir. ''-I'' @ include_dir) include_dir_set
                             else result);
                   result = (if external_include_dir_set \<noteq> []
                             then result @ map (\<lambda>include_dir. ''-I'' @ include_dir)
                                             external_include_dir_set
                             else result)
               in Inr result))"

subsection \<open>The module's globals\<close>

text \<open>
  What \<^verbatim>\<open>ycm_core\<close> gives: a record of compilation information has a flag list and a
  working directory; a database answers every file name with such a record, one with no
  flags for a file it does not know. An object of either kind counts as true. The fields
  are \<^verbatim>\<open>compiler_flags_\<close> and \<^verbatim>\<open>compiler_working_dir_\<close> in Python.
\<close>

record compilation_info =
  compiler_flags :: "string list"
  compiler_working_dir :: string

type_synonym CompilationDatabase = "string \<Rightarrow> compilation_info"

text \<open>
  The globals the per-file functions read: \<open>flags\<close> and \<open>system_includes\<close> as the module
  leaves them, and \<open>database\<close>, which is \<open>None\<close> or a database.
\<close>

record globals =
  flags :: "string list"
  database :: "CompilationDatabase option"
  system_includes :: "string list"

text \<open>
  The statements the module runs when it is loaded, in their order. \<open>open_database\<close> stands
  for \<^verbatim>\<open>ycm_core.CompilationDatabase\<close>. An error leaves no module.
\<close>

definition load_module ::
  "options \<Rightarrow> (string \<Rightarrow> CompilationDatabase) \<Rightarrow> os_env \<Rightarrow> error + globals" where
  "load_module opts open_database env =
     (case (if GUESS_INCLUDE_PATH opts
            then (case GuessIncludeDirectory env of
                    Inl e \<Rightarrow> Inl e
                  | Inr guessed \<Rightarrow> Inr (static_flags opts @ guessed))
            else Inr (static_flags opts)) of
        Inl e \<Rightarrow> Inl e
      | Inr flags1 \<Rightarrow>
          (case (if GUESS_BUILD_DIRECTORY opts
                 then (case GuessBuildDirectory env of
                         Inr d \<Rightarrow> Inr d
                       | Inl OSError \<Rightarrow> Inr []
                       | Inl e \<Rightarrow> Inl e)
                 else Inr (compilation_database_folder opts)) of
             Inl e \<Rightarrow> Inl e
           | Inr folder \<Rightarrow>
               (case LoadSystemIncludes env of
                  Inl e \<Rightarrow> Inl e
                | Inr includes \<Rightarrow>
                    Inr \<lparr>flags = flags1 @ includes,
                         database = (if os_path_exists env folder
                                     then Some (open_database folder) else None),
                         system_includes = includes\<rparr>)))"

subsection \<open>MakeRelativePathsInFlagsAbsolute\<close>

definition path_flags :: "string list" where
  "path_flags = [''-isystem'', ''-I'', ''-iquote'', ''--sysroot='']"

text \<open>
  The inner loop over \<open>path_flags\<close>, which stops at the first flag that matches; it
  returns \<open>make_next_absolute\<close> and \<open>new_flag\<close>.
\<close>

fun path_flags_loop :: "string \<Rightarrow> string \<Rightarrow> string list \<Rightarrow> bool \<Rightarrow> string \<Rightarrow> bool \<times> string" where
  "path_flags_loop working_directory flag [] make_next_absolute new_flag =
     (make_next_absolute, new_flag)"
| "path_flags_loop working_directory flag (path_flag # rest) make_next_absolute new_flag =
     (if flag = path_flag then (True, new_flag)
      else if startswith flag path_flag
      then (let path = drop (length path_flag) flag
            in (make_next_absolute, path_flag @ path_join working_directory path))
      else path_flags_loop working_directory flag rest make_next_absolute new_flag)"

text \<open>The body of the outer loop for one flag.\<close>

definition rewrite_flag :: "string \<Rightarrow> bool \<Rightarrow> string \<Rightarrow> bool \<times> string" where
  "rewrite_flag working_directory make_next_absolute flag =
     (let new_flag = flag;
          (make_next_absolute, new_flag) =
             (if make_next_absolute
              then (False, if \<not> startswith flag ''/'' then path_join working_directory flag
                           else new_flag)
              else (make_next_absolute, new_flag))
      in path_flags_loop working_directory flag path_flags make_next_absolute new_flag)"

fun flags_loop :: "string \<Rightarrow> string list \<Rightarrow> bool \<Rightarrow> string list \<Rightarrow> string list" where
  "flags_loop working_directory [] make_next_absolute new_flags = new_flags"
| "flags_loop working_directory (flag # rest) make_next_absolute new_flags =
     (let (make_next_absolute, new_flag) = rewrite_flag working_directory make_next_absolute flag
      in flags_loop working_directory rest make_next_absolute
           (if new_flag \<noteq> [] then new_flags @ [new_flag] else new_flags))"

text \<open>\<open>working_directory\<close> is a string or \<^verbatim>\<open>None\<close>; both \<^verbatim>\<open>None\<close> and the empty string count as false.\<close>

definition MakeRelativePathsInFlagsAbsolute :: "string list \<Rightarrow> string option \<Rightarrow> string list" where
  "MakeRelativePathsInFlagsAbsolute flag_list working_directory =
     (case working_directory of
        None \<Rightarrow> flag_list
      | Some wd \<Rightarrow> if wd = [] then flag_list else flags_loop wd flag_list False [])"

subsection \<open>The per-file functions\<close>

definition IsHeaderFile :: "string \<Rightarrow> bool" where
  "IsHeaderFile filename =
     (let extension = lower (snd (splitext filename)) in extension \<in> set HEADER_EXTENSIONS)"

text \<open>
  The loop over \<open>SOURCE_EXTENSIONS\<close>. \<open>asked\<close> collects the file names the database is asked
  for, in order.
\<close>

fun replacement_loop ::
  "os_env \<Rightarrow> CompilationDatabase \<Rightarrow> string \<Rightarrow> string list \<Rightarrow> string list
     \<Rightarrow> compilation_info option \<times> string list" where
  "replacement_loop env db base [] asked = (None, asked)"
| "replacement_loop env db base (extension # rest) asked =
     (let replacement_file = base @ extension
      in if os_path_exists env replacement_file
         then (let compilation_info = db replacement_file;
                   asked = asked @ [replacement_file]
               in if compiler_flags compilation_info \<noteq> [] then (Some compilation_info, asked)
                  else replacement_loop env db base rest asked)
         else replacement_loop env db base rest asked)"

text \<open>The value returned, and the file names the database was asked for.\<close>

definition GetCompilationInfoForFile ::
  "globals \<Rightarrow> os_env \<Rightarrow> string \<Rightarrow> compilation_info option \<times> string list" where
  "GetCompilationInfoForFile g env filename =
     (case database g of
        None \<Rightarrow> (None, [])
      | Some db \<Rightarrow>
          if IsHeaderFile filename
          then replacement_loop env db (fst (splitext filename)) SOURCE_EXTENSIONS []
          else (Some (db filename), [filename]))"

record flags_result =
  result_flags :: "string list"
  do_cache :: bool

text \<open>\<open>kwargs\<close> stands for the keyword options of the call; the function does not read them.\<close>

text \<open>
  \<open>Inl\<close> is an error that leaves the function, \<open>Inr None\<close> the value \<^verbatim>\<open>None\<close>, \<open>Inr (Some r)\<close>
  the dictionary returned.
\<close>

definition FlagsForFile ::
  "globals \<Rightarrow> os_env \<Rightarrow> string \<Rightarrow> 'kw \<Rightarrow> error + flags_result option" where
  "FlagsForFile g env filename kwargs =
     (case database g of
        Some db \<Rightarrow>
          (case fst (GetCompilationInfoForFile g env filename) of
             None \<Rightarrow> Inr None
           | Some compilation_info \<Rightarrow>
               Inr (Some \<lparr>result_flags =
                             MakeRelativePathsInFlagsAbsolute (compiler_flags compilation_info)
                               (Some (compiler_working_dir compilation_info))
                             @ system_includes g,
                           do_cache = True\<rparr>))
      | None \<Rightarrow>
          bind_result (DirectoryOfThisScript env) (\<lambda>relative_to.
            Inr (Some \<lparr>result_flags =
                          MakeRelativePathsInFlagsAbsolute (flags g) (Some relative_to),
                        do_cache = True\<rparr>)))"

subsection \<open>The rules of the rewrite, read off the loop body\<close>

text \<open>
  The two assignments to \<^verbatim>\<open>new_flag\<close> in the body of the outer loop, each with the
  condition under which it is executed: the one in the \<^verbatim>\<open>if make_next_absolute\<close> block,
  and the one in the inner loop, reached when an earlier path flag neither equals the
  flag nor is a prefix of it. \<open>prefix_split\<close> is the value the second one assigns.
  \<open>rewritten_forms\<close> lists the final value of \<^verbatim>\<open>new_flag\<close> for every flag, in order.
\<close>

definition lookahead_rule_matches :: "bool \<Rightarrow> string \<Rightarrow> bool" where
  "lookahead_rule_matches make_next_absolute flag =
     (make_next_absolute \<and> \<not> startswith flag ''/'')"

fun prefix_rule_matches :: "string \<Rightarrow> string list \<Rightarrow> bool" where
  "prefix_rule_matches flag [] = False"
| "prefix_rule_matches flag (path_flag # rest) =
     (if flag = path_flag then False
      else if startswith flag path_flag then True
      else prefix_rule_matches flag rest)"

definition prefix_split :: "string \<Rightarrow> string \<Rightarrow> string" where
  "prefix_split working_directory flag =
     (case find (\<lambda>path_flag. startswith flag path_flag) path_flags of
        Some path_flag \<Rightarrow> path_flag @ path_join working_directory (drop (length path_flag) flag)
      | None \<Rightarrow> flag)"

fun rewritten_forms :: "string \<Rightarrow> bool \<Rightarrow> string list \<Rightarrow> string list" where
  "rewritten_forms working_directory make_next_absolute [] = []"
| "rewritten_forms working_directory make_next_absolute (flag # rest) =
     snd (rewrite_flag working_directory make_next_absolute flag)
       # rewritten_forms working_directory
           (fst (rewrite_flag working_directory make_next_absolute flag)) rest"

subsection \<open>Flag lists whose paths are absolute\<close>

text \<open>
  A flag list is already absolute when every path in it begins with the separator: the
  rest of a flag after a path flag it starts with, and the flag that follows one equal
  to a path flag. \<open>follows\<close> tells whether the flag before was equal to a path flag.
\<close>

definition attached_path_absolute :: "string \<Rightarrow> bool" where
  "attached_path_absolute flag =
     list_all (\<lambda>path_flag.
         if startswith flag path_flag \<and> flag \<noteq> path_flag
         then startswith (drop (length path_flag) flag) ''/'' else True)
       path_flags"

fun path_values_absolute :: "bool \<Rightarrow> string list \<Rightarrow> bool" where
  "path_values_absolute follows [] = True"
| "path_values_absolute follows (flag # rest) =
     ((if follows then startswith flag ''/'' else True)
      \<and> attached_path_absolute flag
      \<and> path_values_absolute (flag \<in> set path_flags) rest)"

subsection \<open>The flags for a region of the compiler's output\<close>

text \<open>
  What the system include paths are to be, said without the loop: the lines of the region
  in order, each trimmed, those left out that are empty or hold the text
  \<^verbatim>\<open>(framework directory)\<close> somewhere, and \<^verbatim>\<open>-isystem\<close> before each of the others.
\<close>

definition isystem_pairs :: "string \<Rightarrow> string list" where
  "isystem_pairs region =
     concat (map (\<lambda>p. [''-isystem'', p])
       (filter (\<lambda>p. p \<noteq> [] \<and> \<not> (\<exists>a b. p = a @ ''(framework directory)'' @ b))
          (map strip (str_split region CHR 0x0A))))"

subsection \<open>The paths the build directory guess looks at\<close>

text \<open>For the directory of the script, \<open>anchor\<close>.\<close>

abbreviation build_path :: "string \<Rightarrow> string" where
  "build_path anchor \<equiv> path_join anchor ''build''"

abbreviation compile_commands_pattern :: "string \<Rightarrow> string" where
  "compile_commands_pattern anchor \<equiv>
     path_join (path_join (path_join (path_join anchor ''..'') ''..'') ''*'')
       ''compile_commands.json''"

subsection \<open>Example environments\<close>

text \<open>Small trees, databases and globals on which the theorems below are instantiated.\<close>

definition project_tree :: fsnode where
  "project_tree =
     Dir [(''p'', Dir [(''q'', Dir [(''anchor'', Dir [(''.ycm_extra_conf.py'', File)])]),
                       (''out'', Dir [(''compile_commands.json'', File)])])]"

definition build_env :: "fsnode \<Rightarrow> string list \<Rightarrow> os_env" where
  "build_env tree matches =
     \<lparr>fs_root = tree, getcwd = Some ''/p/q/anchor'', script_file = ''.ycm_extra_conf.py'',
      glob_glob = (\<lambda>pat. if pat = ''/p/q/anchor/../../*/compile_commands.json'' then matches else []),
      clang_output = None\<rparr>"


definition project_tree_with_build :: fsnode where
  "project_tree_with_build =
     Dir [(''p'', Dir [(''q'', Dir [(''anchor'', Dir [(''.ycm_extra_conf.py'', File),
                                                     (''build'', Dir [])])]),
                       (''out'', Dir [(''compile_commands.json'', File)])])]"

definition example_tree :: fsnode where
  "example_tree =
     Dir [(''proj'', Dir [(''.ycm_extra_conf.py'', File), (''foo.h'', File), (''foo.cpp'', File),
                          (''foo.cc'', File), (''bar.h'', File)])]"

definition example_env :: os_env where
  "example_env =
     \<lparr>fs_root = example_tree, getcwd = Some ''/proj'', script_file = ''/proj/.ycm_extra_conf.py'',
      glob_glob = (\<lambda>pat. []), clang_output = None\<rparr>"

definition example_db :: CompilationDatabase where
  "example_db p =
     (if p = ''/proj/foo.cpp''
      then \<lparr>compiler_flags = [''-I'', ''inc''], compiler_working_dir = ''/proj/build''\<rparr>
      else if p = ''/proj/foo.cc''
      then \<lparr>compiler_flags = [''-DCC''], compiler_working_dir = ''/proj/build''\<rparr>
      else \<lparr>compiler_flags = [], compiler_working_dir = []\<rparr>)"

definition example_globals :: globals where
  "example_globals =
     \<lparr>flags = [''-Wall'', ''-isystem'', ''/usr/include/c++''], database = Some example_db,
      system_includes = [''-isystem'', ''/usr/include/c++'']\<rparr>"

text \<open>The script was loaded under a relative name, and the working directory is gone.\<close>

definition lost_cwd_env :: os_env where
  "lost_cwd_env =
     \<lparr>fs_root = example_tree, getcwd = None, script_file = ''.ycm_extra_conf.py'',
      glob_glob = (\<lambda>pat. []), clang_output = None\<rparr>"

text \<open>
  The lines between the markers in an output of the compiler: two paths with blanks
  around them, a framework directory, a line of a no-break space and a next-line
  character, and a path between two no-break spaces.
\<close>

definition search_list_region :: string where
  "search_list_region =
     ''\<newline> /usr/include/c++/5\<newline>  /usr/local/include \<newline>''
     @ '' /System/Library/Frameworks (framework directory)\<newline>''
     @ [CHR 0xA0, CHR 0x85] @ ''\<newline>''
     @ [CHR 0xA0] @ ''/usr/include'' @ [CHR 0xA0] @ ''\<newline>''"

definition clang_env :: os_env where
  "clang_env =
     \<lparr>fs_root = Dir [], getcwd = Some ''/'', script_file = ''/.ycm_extra_conf.py'',
      glob_glob = (\<lambda>pat. []),
      clang_output = Some (''clang version 3.8.0\<newline>''
        @ ''#include <...> search starts here:''
        @ search_list_region
        @ End_of_search_list
        @ ''.\<newline>'')\<rparr>"

definition empty_include_env :: os_env where
  "empty_include_env =
     \<lparr>fs_root = Dir [(''anchor'', Dir [(''.ycm_extra_conf.py'', File), (''include'', Dir [])])],
      getcwd = Some ''/'', script_file = ''/anchor/.ycm_extra_conf.py'',
      glob_glob = (\<lambda>pat. []), clang_output = None\<rparr>"

definition src_header_env :: os_env where
  "src_header_env =
     \<lparr>fs_root = Dir [(''anchor'', Dir [(''.ycm_extra_conf.py'', File),
                                        (''src'', Dir [(''a.hpp'', File)])])],
      getcwd = Some ''/'', script_file = ''/anchor/.ycm_extra_conf.py'',
      glob_glob = (\<lambda>pat. []), clang_output = None\<rparr>"

definition src_subdir_env :: os_env where
  "src_subdir_env =
     \<lparr>fs_root = Dir [(''anchor'', Dir [(''.ycm_extra_conf.py'', File),
                                        (''src'', Dir [(''a.hpp'', File), (''main.c'', File),
                                                       (''sub'', Dir [(''b.H'', File)]),
                                                       (''impl'', Dir [(''b.c'', File)])])])],
      getcwd = Some ''/'', script_file = ''/anchor/.ycm_extra_conf.py'',
      glob_glob = (\<lambda>pat. []), clang_output = None\<rparr>"

section \<open>Properties\<close>

subsection \<open>The directory of the script\<close>

lemma bind_result_Inr: "bind_result (Inr x) f = f x"
  by (simp add: bind_result_def)

lemma bind_result_Inl: "bind_result (Inl e) f = Inl e"
  by (simp add: bind_result_def)

lemma DirectoryOfThisScript_raises:
  "(\<exists>e. DirectoryOfThisScript env = Inl e) \<longleftrightarrow>
     \<not> startswith (script_file env) ''/'' \<and> getcwd env = None"
  by (auto simp: DirectoryOfThisScript_def abspath_def bind_result_def split: option.splits)

lemma DirectoryOfThisScript_error: "DirectoryOfThisScript env = Inl e \<Longrightarrow> e = OSError"
  by (auto simp: DirectoryOfThisScript_def abspath_def bind_result_def
      split: if_splits option.splits sum.splits)

subsection \<open>The build directory guess\<close>

text \<open>
  Claim C3. With \<open>anchor\<close> the directory of the script, \<open>GuessBuildDirectory\<close> returns the
  \<^verbatim>\<open>build\<close> directory below it whenever that path exists, whatever \<^verbatim>\<open>glob\<close> finds;
  otherwise, when \<^verbatim>\<open>glob\<close> has exactly one match for the \<^verbatim>\<open>compile_commands.json\<close> pattern two
  levels up, the directory part of that match; and it fails exactly when \<^verbatim>\<open>build\<close> does not
  exist and the number of matches is not one. The only error is \<open>OSError\<close>, which is also
  what is raised where the directory of the script cannot be told.
\<close>

theorem GuessBuildDirectory_cases:
  "(\<forall>anchor. DirectoryOfThisScript env = Inr anchor \<longrightarrow>
       (os_path_exists env (build_path anchor) \<longrightarrow> GuessBuildDirectory env = Inr (build_path anchor))
     \<and> (\<not> os_path_exists env (build_path anchor) \<longrightarrow>
          (\<forall>m. glob_glob env (compile_commands_pattern anchor) = [m] \<longrightarrow>
               GuessBuildDirectory env = Inr (dirname m)))
     \<and> ((\<exists>e. GuessBuildDirectory env = Inl e) \<longleftrightarrow>
          \<not> os_path_exists env (build_path anchor)
          \<and> length (glob_glob env (compile_commands_pattern anchor)) \<noteq> 1))
   \<and> (\<forall>e. GuessBuildDirectory env = Inl e \<longrightarrow> e = OSError)
   \<and> ((\<exists>e. DirectoryOfThisScript env = Inl e) \<longrightarrow> GuessBuildDirectory env = Inl OSError)"
proof (cases "DirectoryOfThisScript env")
  case (Inl e)
  with DirectoryOfThisScript_error[OF Inl] show ?thesis
    by (simp add: GuessBuildDirectory_def bind_result_Inl)
next
  case (Inr anchor)
  then show ?thesis
    by (auto simp: GuessBuildDirectory_def bind_result_Inr Let_def dirname_def split: if_splits)
qed

theorem GuessBuildDirectory_cases_witness:
  "GuessBuildDirectory
       (build_env project_tree_with_build
          [''/p/q/anchor/../../out/compile_commands.json'',
           ''/p/q/anchor/../../other/compile_commands.json''])
     = Inr ''/p/q/anchor/build''
   \<and> GuessBuildDirectory
       (build_env project_tree [''/p/q/anchor/../../out/compile_commands.json''])
     = Inr ''/p/q/anchor/../../out''
   \<and> (\<exists>e. GuessBuildDirectory (build_env project_tree []) = Inl e)
   \<and> (\<exists>e. GuessBuildDirectory
              (build_env project_tree
                 [''/p/q/anchor/../../out/compile_commands.json'',
                  ''/p/q/anchor/../../other/compile_commands.json'']) = Inl e)
   \<and> GuessBuildDirectory lost_cwd_env = Inl OSError"
proof -
  let ?m1 = "''/p/q/anchor/../../out/compile_commands.json''"
  let ?m2 = "''/p/q/anchor/../../other/compile_commands.json''"
  let ?anchor = "''/p/q/anchor''"
  let ?A = "build_env project_tree_with_build [?m1, ?m2]"
  let ?B = "build_env project_tree [?m1]"
  let ?C = "build_env project_tree []"
  let ?D = "build_env project_tree [?m1, ?m2]"
  have a0: "DirectoryOfThisScript ?A = Inr ?anchor" by code_simp
  have a1: "os_path_exists ?A (build_path ?anchor)" by code_simp
  have a2: "build_path ?anchor = ''/p/q/anchor/build''" by code_simp
  have b0: "DirectoryOfThisScript ?B = Inr ?anchor" by code_simp
  have b1: "\<not> os_path_exists ?B (build_path ?anchor)" by code_simp
  have b2: "glob_glob ?B (compile_commands_pattern ?anchor) = [?m1]" by code_simp
  have b3: "dirname ?m1 = ''/p/q/anchor/../../out''" by code_simp
  have c0: "DirectoryOfThisScript ?C = Inr ?anchor" by code_simp
  have c1: "\<not> os_path_exists ?C (build_path ?anchor)" by code_simp
  have c2: "length (glob_glob ?C (compile_commands_pattern ?anchor)) \<noteq> 1" by code_simp
  have d0: "DirectoryOfThisScript ?D = Inr ?anchor" by code_simp
  have d1: "\<not> os_path_exists ?D (build_path ?anchor)" by code_simp
  have d2: "length (glob_glob ?D (compile_commands_pattern ?anchor)) \<noteq> 1" by code_simp
  have l0: "DirectoryOfThisScript lost_cwd_env = Inl OSError" by code_simp
  from GuessBuildDirectory_cases[of ?A] a0 a1 a2
  have A: "GuessBuildDirectory ?A = Inr ''/p/q/anchor/build''" by simp
  from GuessBuildDirectory_cases[of ?B] b0 b1 b2 b3
  have B: "GuessBuildDirectory ?B = Inr ''/p/q/anchor/../../out''" by simp
  from GuessBuildDirectory_cases[of ?C] c0 c1 c2
  have C: "\<exists>e. GuessBuildDirectory ?C = Inl e" by blast
  from GuessBuildDirectory_cases[of ?D] d0 d1 d2
  have D: "\<exists>e. GuessBuildDirectory ?D = Inl e" by blast
  from GuessBuildDirectory_cases[of lost_cwd_env] l0
  have L: "GuessBuildDirectory lost_cwd_env = Inl OSError" by blast
  from A B C D L show ?thesis by blast
qed

subsection \<open>The database lookup for a header\<close>

lemma splitext_append: "fst (splitext p) @ snd (splitext p) = p"
  by (simp add: splitext_def Let_def)

lemma replacement_loop_fst:
  "fst (replacement_loop env db base exts asked) =
     map_option db (find (\<lambda>p. os_path_exists env p \<and> compiler_flags (db p) \<noteq> [])
                      (map (\<lambda>ext. base @ ext) exts))"
  by (induction exts arbitrary: asked) (auto simp: Let_def)

lemma replacement_loop_asked:
  "x \<in> set (snd (replacement_loop env db base exts asked)) \<Longrightarrow>
     x \<in> set asked \<or> x \<in> (\<lambda>ext. base @ ext) ` set exts"
proof (induction exts arbitrary: asked)
  case Nil
  then show ?case by simp
next
  case (Cons ext exts)
  show ?case
  proof (cases "os_path_exists env (base @ ext)")
    case False
    with Cons.prems have "x \<in> set (snd (replacement_loop env db base exts asked))"
      by simp
    from Cons.IH[OF this] show ?thesis by auto
  next
    case True
    show ?thesis
    proof (cases "compiler_flags (db (base @ ext)) \<noteq> []")
      case True
      with \<open>os_path_exists env (base @ ext)\<close> Cons.prems show ?thesis
        by (auto simp: Let_def)
    next
      case False
      with \<open>os_path_exists env (base @ ext)\<close> Cons.prems
      have "x \<in> set (snd (replacement_loop env db base exts (asked @ [base @ ext])))"
        by (simp add: Let_def)
      from Cons.IH[OF this] show ?thesis by auto
    qed
  qed
qed

lemma header_not_source:
  assumes "IsHeaderFile filename" and "ext \<in> set SOURCE_EXTENSIONS"
  shows "fst (splitext filename) @ ext \<noteq> filename"
proof
  assume "fst (splitext filename) @ ext = filename"
  then have "fst (splitext filename) @ ext = fst (splitext filename) @ snd (splitext filename)"
    by (simp add: splitext_append)
  then have "snd (splitext filename) = ext" by simp
  with assms(1) have "lower ext \<in> set HEADER_EXTENSIONS"
    by (simp add: IsHeaderFile_def)
  with assms(2) show False
    by (auto simp: SOURCE_EXTENSIONS_def HEADER_EXTENSIONS_def lower_def lower_char_def
        uppercase_def lowercase_def)
qed

text \<open>
  Claim C4. For a file name that \<open>IsHeaderFile\<close> accepts, \<open>GetCompilationInfoForFile\<close>
  returns \<^verbatim>\<open>None\<close> when there is no database, and otherwise the record of the first
  path, among the name with its extension replaced by \<^verbatim>\<open>.cpp\<close>, \<^verbatim>\<open>.cxx\<close>, \<^verbatim>\<open>.cc\<close>, \<^verbatim>\<open>.c\<close>,
  \<^verbatim>\<open>.m\<close>, \<^verbatim>\<open>.mm\<close> in this order, that exists and whose record has a flag list that is not empty, and \<^verbatim>\<open>None\<close> when there
  is no such path; the database is never asked for the header itself. With \<^verbatim>\<open>foo.h\<close>
  requested and both \<^verbatim>\<open>foo.cpp\<close> and \<^verbatim>\<open>foo.cc\<close> present with records, the record of
  \<^verbatim>\<open>foo.cpp\<close> is returned (the witness).
\<close>

theorem header_lookup:
  assumes "IsHeaderFile filename"
  shows "fst (GetCompilationInfoForFile g env filename) =
           (case database g of
              None \<Rightarrow> None
            | Some db \<Rightarrow>
                map_option db
                  (find (\<lambda>p. os_path_exists env p \<and> compiler_flags (db p) \<noteq> [])
                     (map (\<lambda>ext. fst (splitext filename) @ ext)
                        [''.cpp'', ''.cxx'', ''.cc'', ''.c'', ''.m'', ''.mm''])))
         \<and> filename \<notin> set (snd (GetCompilationInfoForFile g env filename))"
proof (cases "database g")
  case None
  then show ?thesis by (simp add: GetCompilationInfoForFile_def)
next
  case (Some db)
  let ?loop = "replacement_loop env db (fst (splitext filename)) SOURCE_EXTENSIONS []"
  have unfold: "GetCompilationInfoForFile g env filename = ?loop"
    using assms Some by (simp add: GetCompilationInfoForFile_def)
  have returned: "fst ?loop =
      map_option db
        (find (\<lambda>p. os_path_exists env p \<and> compiler_flags (db p) \<noteq> [])
           (map (\<lambda>ext. fst (splitext filename) @ ext)
              [''.cpp'', ''.cxx'', ''.cc'', ''.c'', ''.m'', ''.mm'']))"
    by (simp only: replacement_loop_fst SOURCE_EXTENSIONS_def)
  have "filename \<notin> set (snd ?loop)"
  proof
    assume "filename \<in> set (snd ?loop)"
    from replacement_loop_asked[OF this]
    obtain ext where "ext \<in> set SOURCE_EXTENSIONS" and "fst (splitext filename) @ ext = filename"
      by auto
    with header_not_source[OF assms] show False by blast
  qed
  with returned Some show ?thesis unfolding unfold by simp
qed

theorem header_lookup_witness:
  "IsHeaderFile ''/proj/foo.h'' \<and> database example_globals = Some example_db
   \<and> os_path_exists example_env ''/proj/foo.cpp'' \<and> os_path_exists example_env ''/proj/foo.cc''
   \<and> compiler_flags (example_db ''/proj/foo.cpp'') \<noteq> []
   \<and> compiler_flags (example_db ''/proj/foo.cc'') \<noteq> []
   \<and> fst (GetCompilationInfoForFile example_globals example_env ''/proj/foo.h'')
       = Some (example_db ''/proj/foo.cpp'')
   \<and> ''/proj/foo.h'' \<notin> set (snd (GetCompilationInfoForFile example_globals example_env ''/proj/foo.h''))"
proof -
  have h: "IsHeaderFile ''/proj/foo.h''" by code_simp
  have d: "database example_globals = Some example_db" by (simp add: example_globals_def)
  have e1: "os_path_exists example_env ''/proj/foo.cpp''" by code_simp
  have e2: "os_path_exists example_env ''/proj/foo.cc''" by code_simp
  have s: "fst (splitext ''/proj/foo.h'') = ''/proj/foo''" by code_simp
  have f: "compiler_flags (example_db ''/proj/foo.cpp'') \<noteq> []" by (simp add: example_db_def)
  have f2: "compiler_flags (example_db ''/proj/foo.cc'') \<noteq> []" by (simp add: example_db_def)
  from header_lookup[OF h, of example_globals example_env] s e1 f h d e2 f2 show ?thesis by simp
qed

subsection \<open>The result of FlagsForFile\<close>

text \<open>
  Claim C5, as amended. \<open>FlagsForFile\<close> raises in one case only: there is no database,
  \<^verbatim>\<open>__file__\<close> is a relative path and the working directory is gone, so that
  \<^verbatim>\<open>os.path.abspath\<close> fails in \<^verbatim>\<open>os.getcwd\<close>; the error is an \<open>OSError\<close>. In every other case it
  returns a value: \<^verbatim>\<open>None\<close> exactly when a database is present and the lookup returns
  \<^verbatim>\<open>None\<close>, and otherwise a result that holds a flag list.
\<close>

theorem FlagsForFile_result:
  "(\<forall>e. FlagsForFile g env filename kwargs = Inl e \<longleftrightarrow>
         e = OSError \<and> database g = None
         \<and> \<not> startswith (script_file env) ''/'' \<and> getcwd env = None)
   \<and> (FlagsForFile g env filename kwargs = Inr None \<longleftrightarrow>
         database g \<noteq> None \<and> fst (GetCompilationInfoForFile g env filename) = None)
   \<and> (\<forall>r. FlagsForFile g env filename kwargs = Inr (Some r) \<longrightarrow>
         (\<exists>flag_list. r = \<lparr>result_flags = flag_list, do_cache = True\<rparr>))"
proof (cases "database g")
  case (Some db)
  then show ?thesis
    by (auto simp: FlagsForFile_def split: option.splits)
next
  case None
  show ?thesis
  proof (cases "DirectoryOfThisScript env")
    case (Inl e)
    from DirectoryOfThisScript_error[OF Inl] have e: "e = OSError" .
    from Inl DirectoryOfThisScript_raises[of env]
    have "\<not> startswith (script_file env) ''/'' \<and> getcwd env = None" by blast
    with None Inl e show ?thesis by (auto simp: FlagsForFile_def bind_result_Inl)
  next
    case (Inr relative_to)
    with DirectoryOfThisScript_raises[of env]
    have "\<not> (\<not> startswith (script_file env) ''/'' \<and> getcwd env = None)" by auto
    with None Inr show ?thesis by (auto simp: FlagsForFile_def bind_result_Inr)
  qed
qed

theorem FlagsForFile_result_witness:
  "FlagsForFile example_globals example_env ''/proj/bar.h'' () = Inr None
   \<and> (\<exists>flag_list. FlagsForFile example_globals example_env ''/proj/foo.h'' ()
         = Inr (Some \<lparr>result_flags = flag_list, do_cache = True\<rparr>))
   \<and> (\<exists>flag_list. FlagsForFile (example_globals\<lparr>database := None\<rparr>) example_env ''/proj/bar.h'' ()
         = Inr (Some \<lparr>result_flags = flag_list, do_cache = True\<rparr>))
   \<and> FlagsForFile (example_globals\<lparr>database := None\<rparr>) lost_cwd_env ''/proj/bar.h'' ()
         = Inl OSError"
proof -
  let ?nodb = "example_globals\<lparr>database := None\<rparr>"
  have d: "database example_globals \<noteq> None" by (simp add: example_globals_def)
  have n: "database ?nodb = None" by simp
  have bar: "fst (GetCompilationInfoForFile example_globals example_env ''/proj/bar.h'') = None"
    by code_simp
  have relative: "\<not> startswith (script_file lost_cwd_env) ''/''" by code_simp
  have gone: "getcwd lost_cwd_env = None" by (simp add: lost_cwd_env_def)
  have foo: "FlagsForFile example_globals example_env ''/proj/foo.h'' ()
      = Inr (Some \<lparr>result_flags = [''-I'', ''/proj/build/inc'', ''-isystem'', ''/usr/include/c++''],
                     do_cache = True\<rparr>)"
    by code_simp
  have plain: "FlagsForFile ?nodb example_env ''/proj/bar.h'' ()
      = Inr (Some \<lparr>result_flags = [''-Wall'', ''-isystem'', ''/usr/include/c++''],
                     do_cache = True\<rparr>)"
    by code_simp
  note bar_h = FlagsForFile_result[of example_globals example_env "''/proj/bar.h''" "()"]
  note foo_h = FlagsForFile_result[of example_globals example_env "''/proj/foo.h''" "()"]
  note no_db = FlagsForFile_result[of ?nodb example_env "''/proj/bar.h''" "()"]
  note lost = FlagsForFile_result[of ?nodb lost_cwd_env "''/proj/bar.h''" "()"]
  from bar_h[THEN conjunct2, THEN conjunct1] d bar
  have 1: "FlagsForFile example_globals example_env ''/proj/bar.h'' () = Inr None" by simp
  from foo_h[THEN conjunct2, THEN conjunct2, THEN spec, THEN mp, OF foo] foo
  have 2: "\<exists>flag_list. FlagsForFile example_globals example_env ''/proj/foo.h'' ()
             = Inr (Some \<lparr>result_flags = flag_list, do_cache = True\<rparr>)" by simp
  from no_db[THEN conjunct2, THEN conjunct2, THEN spec, THEN mp, OF plain] plain
  have 3: "\<exists>flag_list. FlagsForFile ?nodb example_env ''/proj/bar.h'' ()
             = Inr (Some \<lparr>result_flags = flag_list, do_cache = True\<rparr>)" by simp
  from lost[THEN conjunct1, THEN spec, of OSError] n relative gone
  have 4: "FlagsForFile ?nodb lost_cwd_env ''/proj/bar.h'' () = Inl OSError" by simp
  from 1 2 3 4 show ?thesis by (intro conjI)
qed

text \<open>
  The claim as it was stated has the function never raise. With no database, the script
  loaded as \<^verbatim>\<open>.ycm_extra_conf.py\<close> and the working directory gone, the call of
  \<^verbatim>\<open>DirectoryOfThisScript()\<close> raises, and nothing in \<open>FlagsForFile\<close> catches the error.
\<close>

theorem FlagsForFile_raises_counterexample:
  "database (example_globals\<lparr>database := None\<rparr>) = None
   \<and> script_file lost_cwd_env = ''.ycm_extra_conf.py''
   \<and> getcwd lost_cwd_env = None
   \<and> DirectoryOfThisScript lost_cwd_env = Inl OSError
   \<and> FlagsForFile (example_globals\<lparr>database := None\<rparr>) lost_cwd_env ''/proj/foo.cpp'' ()
       = Inl OSError"
  by code_simp

text \<open>
  Claim C10. Every result \<open>FlagsForFile\<close> returns has \<^verbatim>\<open>do_cache\<close> set to \<^verbatim>\<open>True\<close>.
\<close>

theorem FlagsForFile_do_cache:
  "FlagsForFile g env filename kwargs = Inr (Some r) \<Longrightarrow> do_cache r = True"
  by (auto simp: FlagsForFile_def bind_result_def split: option.splits sum.splits)

theorem FlagsForFile_do_cache_witness:
  "FlagsForFile (example_globals\<lparr>database := None\<rparr>) example_env ''/proj/foo.cpp'' ()
     = Inr (Some \<lparr>result_flags = [''-Wall'', ''-isystem'', ''/usr/include/c++''], do_cache = True\<rparr>)
   \<and> do_cache \<lparr>result_flags = [''-Wall'', ''-isystem'', ''/usr/include/c++''], do_cache = True\<rparr>
       = True"
proof -
  have r: "FlagsForFile (example_globals\<lparr>database := None\<rparr>) example_env ''/proj/foo.cpp'' ()
     = Inr (Some \<lparr>result_flags = [''-Wall'', ''-isystem'', ''/usr/include/c++''], do_cache = True\<rparr>)"
    by code_simp
  from FlagsForFile_do_cache[OF r] r show ?thesis by blast
qed

subsection \<open>The rules of the path-flag rewrite\<close>

lemma path_flags_loop_eq:
  "path_flags_loop wd flag path_flags mna nf =
     (if flag \<in> set path_flags then (True, nf)
      else if prefix_rule_matches flag path_flags then (mna, prefix_split wd flag)
      else (mna, nf))"
  by (auto simp: path_flags_def prefix_split_def startswith_def)

lemma exact_not_prefix: "flag \<in> set path_flags \<Longrightarrow> \<not> prefix_rule_matches flag path_flags"
  by (auto simp: path_flags_def startswith_def)

lemma exact_not_absolute: "flag \<in> set path_flags \<Longrightarrow> \<not> startswith flag ''/''"
  by (auto simp: path_flags_def startswith_def)

lemma rewrite_flag_eq:
  "rewrite_flag wd mna flag =
     (flag \<in> set path_flags,
      if prefix_rule_matches flag path_flags then prefix_split wd flag
      else if lookahead_rule_matches mna flag then path_join wd flag
      else flag)"
  by (auto simp: rewrite_flag_def path_flags_loop_eq lookahead_rule_matches_def
      exact_not_prefix exact_not_absolute)

text \<open>
  Claim C6, as amended. For every flag the inner loop takes at most one of its two
  cases: a flag equal to a path flag is never split, it only sets the lookahead. The
  lookahead rule and the prefix rule are not exclusive: a flag that follows one equal to
  a path flag and that itself starts with a path flag is matched by both, and then the
  prefix split of the flag as it was given is the output, the value the lookahead rule
  had assigned being discarded. So no output is the product of both rewrites.
\<close>

theorem rewrite_flag_rules:
  "snd (rewrite_flag wd make_next_absolute flag) =
     (if prefix_rule_matches flag path_flags then prefix_split wd flag
      else if lookahead_rule_matches make_next_absolute flag then path_join wd flag
      else flag)
   \<and> fst (rewrite_flag wd make_next_absolute flag) = (flag \<in> set path_flags)
   \<and> (flag \<in> set path_flags \<longrightarrow> \<not> prefix_rule_matches flag path_flags)"
  by (simp add: rewrite_flag_eq exact_not_prefix)

theorem rewrite_flag_rules_witness:
  "snd (rewrite_flag ''/w'' True ''-Ifoo'') = ''-I/w/foo''
   \<and> snd (rewrite_flag ''/w'' True ''foo'') = ''/w/foo''
   \<and> rewrite_flag ''/w'' False ''-I'' = (True, ''-I'')"
proof -
  have a: "prefix_rule_matches ''-Ifoo'' path_flags" by code_simp
  have b: "prefix_split ''/w'' ''-Ifoo'' = ''-I/w/foo''" by code_simp
  have c: "\<not> prefix_rule_matches ''foo'' path_flags" by code_simp
  have d: "lookahead_rule_matches True ''foo''" by code_simp
  have e: "path_join ''/w'' ''foo'' = ''/w/foo''" by code_simp
  have f: "''-I'' \<in> set path_flags" by code_simp
  have g: "\<not> lookahead_rule_matches False ''-I''" by code_simp
  from rewrite_flag_rules[of "''/w''" True "''-Ifoo''"] a b
  have 1: "snd (rewrite_flag ''/w'' True ''-Ifoo'') = ''-I/w/foo''" by simp
  from rewrite_flag_rules[of "''/w''" True "''foo''"] c d e
  have 2: "snd (rewrite_flag ''/w'' True ''foo'') = ''/w/foo''" by simp
  from rewrite_flag_rules[of "''/w''" False "''-I''"] f g
  have 3: "rewrite_flag ''/w'' False ''-I'' = (True, ''-I'')"
    by (metis prod.collapse)
  from 1 2 3 show ?thesis by blast
qed

text \<open>
  The claim as it was stated fails on \<^verbatim>\<open>['-I', '-Ifoo']\<close>: the second flag is read with
  \<^verbatim>\<open>make_next_absolute\<close> set, does not begin with the separator, and starts with \<^verbatim>\<open>-I\<close>, so
  both assignments are executed for it.
\<close>

theorem both_rules_match_counterexample:
  "fst (rewrite_flag ''/w'' False ''-I'')
   \<and> lookahead_rule_matches (fst (rewrite_flag ''/w'' False ''-I'')) ''-Ifoo''
   \<and> prefix_rule_matches ''-Ifoo'' path_flags
   \<and> MakeRelativePathsInFlagsAbsolute [''-I'', ''-Ifoo''] (Some ''/w'') = [''-I'', ''-I/w/foo'']"
  by code_simp

subsection \<open>Flag lists that are already absolute\<close>

lemma path_join_absolute: "startswith p ''/'' \<Longrightarrow> path_join wd p = p"
  by (simp add: path_join_def)

lemma startswith_take_drop: "startswith s p \<Longrightarrow> p @ drop (length p) s = s"
  unfolding startswith_def by (metis append_take_drop_id)

lemma prefix_split_absolute:
  assumes "attached_path_absolute flag" and "flag \<notin> set path_flags"
  shows "prefix_split wd flag = flag"
proof (cases "find (\<lambda>path_flag. startswith flag path_flag) path_flags")
  case None
  then show ?thesis by (simp add: prefix_split_def)
next
  case (Some pf)
  then have starts: "startswith flag pf" and mem: "pf \<in> set path_flags"
    by (auto simp: find_Some_iff)
  with assms(2) have "flag \<noteq> pf" by auto
  with assms(1) starts mem have "startswith (drop (length pf) flag) ''/''"
    by (auto simp: attached_path_absolute_def list_all_iff)
  then have "path_join wd (drop (length pf) flag) = drop (length pf) flag"
    by (rule path_join_absolute)
  with Some starts show ?thesis
    by (simp add: prefix_split_def startswith_take_drop)
qed

lemma rewrite_flag_absolute:
  assumes "attached_path_absolute flag" and "follows \<Longrightarrow> startswith flag ''/''"
  shows "rewrite_flag wd follows flag = (flag \<in> set path_flags, flag)"
proof (cases "flag \<in> set path_flags")
  case True
  with assms(2) have "\<not> follows" using exact_not_absolute by blast
  with True show ?thesis
    by (simp add: rewrite_flag_eq exact_not_prefix lookahead_rule_matches_def)
next
  case False
  with assms show ?thesis
    by (auto simp: rewrite_flag_eq prefix_split_absolute lookahead_rule_matches_def)
qed

lemma flags_loop_absolute:
  "[] \<notin> set flag_list \<Longrightarrow> path_values_absolute follows flag_list \<Longrightarrow>
     flags_loop wd flag_list follows new_flags = new_flags @ flag_list"
proof (induction flag_list arbitrary: follows new_flags)
  case Nil
  then show ?case by simp
next
  case (Cons flag rest)
  from Cons.prems have r: "rewrite_flag wd follows flag = (flag \<in> set path_flags, flag)"
    by (intro rewrite_flag_absolute) (auto split: if_splits)
  from Cons.prems have "flag \<noteq> []" by auto
  with r Cons show ?case by simp
qed

text \<open>
  Claim C7, as amended. For every working directory, also an empty or absent one, a flag
  list that has no empty flag and whose paths all begin with the separator is returned
  unchanged.
\<close>

theorem absolute_flags_unchanged:
  assumes "[] \<notin> set flag_list" and "path_values_absolute False flag_list"
  shows "MakeRelativePathsInFlagsAbsolute flag_list working_directory = flag_list"
  using assms
  by (simp add: MakeRelativePathsInFlagsAbsolute_def flags_loop_absolute[where new_flags="[]", simplified]
      split: option.splits)

theorem absolute_flags_unchanged_witness:
  "[] \<notin> set [''-I/usr/include'', ''-isystem'', ''/usr/include/c++'', ''--sysroot=/opt'', ''-Wall'']
   \<and> path_values_absolute False
        [''-I/usr/include'', ''-isystem'', ''/usr/include/c++'', ''--sysroot=/opt'', ''-Wall'']
   \<and> MakeRelativePathsInFlagsAbsolute
        [''-I/usr/include'', ''-isystem'', ''/usr/include/c++'', ''--sysroot=/opt'', ''-Wall'']
        (Some ''/project/build'')
      = [''-I/usr/include'', ''-isystem'', ''/usr/include/c++'', ''--sysroot=/opt'', ''-Wall'']"
proof -
  let ?fl = "[''-I/usr/include'', ''-isystem'', ''/usr/include/c++'', ''--sysroot=/opt'', ''-Wall'']"
  have a: "[] \<notin> set ?fl" by simp
  have b: "path_values_absolute False ?fl" by code_simp
  from absolute_flags_unchanged[OF a b, of "Some ''/project/build''"] a b show ?thesis by blast
qed

text \<open>
  The claim as it was stated has no condition on empty flags and fails on the list that
  holds one empty flag: it has no path at all, and the rewrite returns the empty list.
\<close>

theorem empty_token_dropped_counterexample:
  "path_values_absolute False [[]]
   \<and> MakeRelativePathsInFlagsAbsolute [[]] (Some ''/w'') = []
   \<and> MakeRelativePathsInFlagsAbsolute [[]] (Some ''/w'') \<noteq> [[]]"
  by code_simp

subsection \<open>Flags that are dropped\<close>

lemma flags_loop_filter:
  "flags_loop wd flag_list mna new_flags =
     new_flags @ filter (\<lambda>new_flag. new_flag \<noteq> []) (rewritten_forms wd mna flag_list)"
  by (induction flag_list arbitrary: mna new_flags) (auto simp: Let_def split: prod.splits)

lemma length_rewritten_forms: "length (rewritten_forms wd mna flag_list) = length flag_list"
  by (induction flag_list arbitrary: mna) auto

lemma path_join_nonempty: "wd \<noteq> [] \<Longrightarrow> path_join wd p \<noteq> []"
  by (auto simp: path_join_def startswith_def)

lemma prefix_rule_matches_find:
  "prefix_rule_matches flag pfs \<Longrightarrow> \<exists>pf. find (\<lambda>path_flag. startswith flag path_flag) pfs = Some pf \<and> pf \<in> set pfs"
  by (induction pfs) (auto split: if_splits)

lemma path_flags_nonempty: "pf \<in> set path_flags \<Longrightarrow> pf \<noteq> []"
  by (auto simp: path_flags_def)

lemma prefix_split_nonempty:
  assumes "prefix_rule_matches flag path_flags"
  shows "prefix_split wd flag \<noteq> []"
proof -
  from prefix_rule_matches_find[OF assms] obtain pf
    where "find (\<lambda>path_flag. startswith flag path_flag) path_flags = Some pf" and "pf \<in> set path_flags"
    by blast
  then show ?thesis by (simp add: prefix_split_def path_flags_nonempty)
qed

lemma empty_no_prefix: "\<not> prefix_rule_matches [] path_flags"
  by (simp add: path_flags_def startswith_def)

lemma rewritten_empty_iff:
  assumes "wd \<noteq> []"
  shows "snd (rewrite_flag wd mna flag) = [] \<longleftrightarrow> flag = [] \<and> \<not> mna"
proof (cases "flag = []")
  case True
  with assms show ?thesis
    by (simp add: rewrite_flag_eq empty_no_prefix lookahead_rule_matches_def startswith_def
        path_join_nonempty)
next
  case False
  with assms show ?thesis
    by (simp add: rewrite_flag_eq prefix_split_nonempty path_join_nonempty)
qed

lemma rewritten_forms_empty_at:
  assumes "wd \<noteq> []"
  shows "i < length flag_list \<Longrightarrow>
     (rewritten_forms wd mna flag_list ! i = [] \<longleftrightarrow>
        flag_list ! i = [] \<and> (if i = 0 then \<not> mna else flag_list ! (i - 1) \<notin> set path_flags))"
proof (induction flag_list arbitrary: mna i)
  case Nil
  then show ?case by simp
next
  case (Cons flag rest)
  show ?case
  proof (cases i)
    case 0
    then show ?thesis by (simp add: rewritten_empty_iff[OF assms])
  next
    case (Suc j)
    with Cons.prems have "j < length rest" by simp
    from Cons.IH[OF this, of "fst (rewrite_flag wd mna flag)"] Suc show ?thesis
      by (cases j) (simp_all add: rewrite_flag_eq)
  qed
qed

text \<open>
  Claim C9, as amended. With a working directory that is not empty, the output is the
  list of the rewritten forms of the flags, in order, without those that are empty; the
  rewritten form of a flag is empty exactly when the flag is empty and does not follow a
  flag equal to a path flag. With no working directory, or an empty one, the list is
  returned as it is, empty flags included.
\<close>

theorem falsy_tokens_dropped:
  "(wd \<noteq> [] \<longrightarrow>
      MakeRelativePathsInFlagsAbsolute flag_list (Some wd)
        = filter (\<lambda>new_flag. new_flag \<noteq> []) (rewritten_forms wd False flag_list)
      \<and> length (rewritten_forms wd False flag_list) = length flag_list
      \<and> (\<forall>i < length flag_list.
            rewritten_forms wd False flag_list ! i = [] \<longleftrightarrow>
              flag_list ! i = [] \<and> (i = 0 \<or> flag_list ! (i - 1) \<notin> set path_flags)))
   \<and> MakeRelativePathsInFlagsAbsolute flag_list None = flag_list
   \<and> MakeRelativePathsInFlagsAbsolute flag_list (Some []) = flag_list"
proof -
  have "\<forall>i < length flag_list.
          rewritten_forms wd False flag_list ! i = [] \<longleftrightarrow>
            flag_list ! i = [] \<and> (i = 0 \<or> flag_list ! (i - 1) \<notin> set path_flags)"
    if "wd \<noteq> []"
    using rewritten_forms_empty_at[OF that, of _ flag_list False] by auto
  then show ?thesis
    by (simp add: MakeRelativePathsInFlagsAbsolute_def flags_loop_filter length_rewritten_forms)
qed

theorem falsy_tokens_dropped_witness:
  "MakeRelativePathsInFlagsAbsolute [''-Wall'', [], ''-I'', [], ''x''] (Some ''/w'')
     = [''-Wall'', ''-I'', ''/w/'', ''x'']
   \<and> MakeRelativePathsInFlagsAbsolute [''-Wall'', [], ''-I'', [], ''x''] None
     = [''-Wall'', [], ''-I'', [], ''x'']
   \<and> MakeRelativePathsInFlagsAbsolute [''-Wall'', [], ''-I'', [], ''x''] (Some [])
     = [''-Wall'', [], ''-I'', [], ''x'']"
proof -
  have r: "rewritten_forms ''/w'' False [''-Wall'', [], ''-I'', [], ''x'']
             = [''-Wall'', [], ''-I'', ''/w/'', ''x'']"
    by code_simp
  have n: "''/w'' \<noteq> []" by simp
  from falsy_tokens_dropped[of "''/w''" "[''-Wall'', [], ''-I'', [], ''x'']"] n r
  show ?thesis by simp
qed

text \<open>
  The claim as it was stated has every empty flag dropped. An empty flag that follows
  \<^verbatim>\<open>-I\<close> is rewritten to the working directory with a separator at its end, and kept.
\<close>

theorem empty_token_kept_counterexample:
  "MakeRelativePathsInFlagsAbsolute [''-I'', []] (Some ''/w'') = [''-I'', ''/w/'']"
  by code_simp

subsection \<open>The system include paths\<close>

lemma startswith_iff: "startswith s p \<longleftrightarrow> (\<exists>r. s = p @ r)"
  unfolding startswith_def
  by (metis append_eq_conv_conj append_take_drop_id)

lemma find_at_negative:
  "find_at sub i s < 0 \<longleftrightarrow> \<not> (\<exists>a b. s = a @ sub @ b)"
proof (induction s arbitrary: i)
  case Nil
  then show ?case by auto
next
  case (Cons c cs)
  show ?case
  proof (cases "startswith (c # cs) sub")
    case True
    then obtain r where "c # cs = [] @ sub @ r" by (auto simp: startswith_iff)
    then have "\<exists>a b. c # cs = a @ sub @ b" by blast
    with True show ?thesis by simp
  next
    case False
    have "(\<exists>a b. c # cs = a @ sub @ b) \<longleftrightarrow> (\<exists>a b. cs = a @ sub @ b)"
    proof
      assume "\<exists>a b. c # cs = a @ sub @ b"
      then obtain a b where ab: "c # cs = a @ sub @ b" by blast
      show "\<exists>a b. cs = a @ sub @ b"
      proof (cases a)
        case Nil
        with ab False show ?thesis by (auto simp: startswith_iff)
      next
        case (Cons x a')
        with ab have "cs = a' @ sub @ b" by simp
        then show ?thesis by blast
      qed
    next
      assume "\<exists>a b. cs = a @ sub @ b"
      then obtain a b where "cs = a @ sub @ b" by blast
      then have "c # cs = (c # a) @ sub @ b" by simp
      then show "\<exists>a b. c # cs = a @ sub @ b" by blast
    qed
    with False Cons.IH[of "Suc i"] show ?thesis by simp
  qed
qed

lemma find_str_negative: "find_str s sub < 0 \<longleftrightarrow> \<not> (\<exists>a b. s = a @ sub @ b)"
  by (simp add: find_str_def find_at_negative)

lemma includes_loop_eq:
  "includes_loop ps acc =
     acc @ concat (map (\<lambda>p. [''-isystem'', p])
        (filter (\<lambda>p. p \<noteq> [] \<and> \<not> (\<exists>a b. p = a @ ''(framework directory)'' @ b))
           (map strip ps)))"
  by (induction ps arbitrary: acc) (simp_all add: Let_def find_str_negative)

lemma match_items_append:
  "match_items items m = Some r \<Longrightarrow> match_items items (m @ t) = Some (r @ t)"
  by (induction items m rule: match_items.induct) (auto split: if_splits)

lemma match_items_sound:
  "match_items items s = Some r \<Longrightarrow> \<exists>m. s = m @ r \<and> match_items items m = Some []"
proof (induction items s rule: match_items.induct)
  case (1 s)
  then show ?case by simp
next
  case (2 i items)
  then show ?case by simp
next
  case (3 c items x xs)
  then have "x = c" and "match_items items xs = Some r" by (auto split: if_splits)
  with 3 obtain m where "xs = m @ r" and "match_items items m = Some []" by blast
  with \<open>x = c\<close> have "x # xs = (x # m) @ r \<and> match_items (Lit c # items) (x # m) = Some []"
    by simp
  then show ?case by blast
next
  case (4 items x xs)
  then obtain m where "xs = m @ r" and "match_items items m = Some []" by auto
  then have "x # xs = (x # m) @ r \<and> match_items (AnyChar # items) (x # m) = Some []"
    by simp
  then show ?case by blast
qed

lemma lazy_group_sound:
  "lazy_group s = Some g \<Longrightarrow> \<exists>t. s = g @ End_of_search_list @ t"
proof (induction s arbitrary: g)
  case Nil
  then show ?case by (auto simp: startswith_iff split: if_splits)
next
  case (Cons x xs)
  show ?case
  proof (cases "startswith (x # xs) End_of_search_list")
    case True
    with Cons.prems show ?thesis by (auto simp: startswith_iff)
  next
    case False
    with Cons.prems obtain g' where "lazy_group xs = Some g'" and "g = x # g'" by auto
    with Cons.IH show ?thesis by auto
  qed
qed

lemma lazy_group_complete: "\<exists>g. lazy_group (body @ End_of_search_list @ t) = Some g"
proof (induction body)
  case Nil
  have "startswith (End_of_search_list @ t) End_of_search_list" by (auto simp: startswith_iff)
  then show ?case by (cases "End_of_search_list @ t") auto
next
  case (Cons x body)
  then show ?case by auto
qed

lemma match_here_sound:
  assumes "match_here s = Some g"
  shows "\<exists>m t. s = m @ g @ End_of_search_list @ t \<and> match_items search_starts_here m = Some []"
proof -
  from assms obtain r where r: "match_items search_starts_here s = Some r" and g: "lazy_group r = Some g"
    by (cases "match_items search_starts_here s") (simp_all add: match_here_def)
  from match_items_sound[OF r] obtain m where m: "s = m @ r" "match_items search_starts_here m = Some []"
    by blast
  from lazy_group_sound[OF g] obtain t where "r = g @ End_of_search_list @ t" by blast
  with m show ?thesis by blast
qed

lemma match_here_complete:
  assumes "match_items search_starts_here m = Some []"
  shows "\<exists>g. match_here (m @ body @ End_of_search_list @ t) = Some g"
  using match_items_append[OF assms, of "body @ End_of_search_list @ t"] lazy_group_complete[of body t]
  by (auto simp: match_here_def)

lemma re_search_sound:
  "re_search s = Some g \<Longrightarrow>
     \<exists>before m t. s = before @ m @ g @ End_of_search_list @ t
        \<and> match_items search_starts_here m = Some []"
proof (induction s)
  case Nil
  from match_here_sound[of "[]" g] Nil show ?case by (metis append_Nil re_search.simps(1))
next
  case (Cons x xs)
  show ?case
  proof (cases "match_here (x # xs)")
    case None
    with Cons.prems have "re_search xs = Some g" by simp
    from Cons.IH[OF this] obtain before m t
      where "xs = before @ m @ g @ End_of_search_list @ t" and "match_items search_starts_here m = Some []"
      by blast
    then have "x # xs = (x # before) @ m @ g @ End_of_search_list @ t \<and> match_items search_starts_here m = Some []"
      by simp
    then show ?thesis by blast
  next
    case (Some g')
    with Cons.prems have "g' = g" by simp
    with Some match_here_sound[of "x # xs" g] show ?thesis by (metis append_Nil)
  qed
qed

lemma re_search_complete:
  assumes "match_items search_starts_here m = Some []"
  shows "\<exists>g. re_search (before @ m @ body @ End_of_search_list @ t) = Some g"
proof (induction before)
  case Nil
  from match_here_complete[OF assms, of body t] obtain g
    where g: "match_here (m @ body @ End_of_search_list @ t) = Some g" by blast
  then show ?case by (cases "m @ body @ End_of_search_list @ t") auto
next
  case (Cons x before)
  then show ?case by (cases "match_here (x # before @ m @ body @ End_of_search_list @ t)") auto
qed

lemma re_search_here: "match_here s = Some g \<Longrightarrow> re_search s = Some g"
  by (cases s) auto

lemma re_search_skip:
  "(\<And>i. i < length before \<Longrightarrow> match_here (drop i (before @ s)) = None) \<Longrightarrow>
     re_search (before @ s) = re_search s"
proof (induction before)
  case Nil
  show ?case by simp
next
  case (Cons x before)
  from Cons.prems[of 0] have "match_here ((x # before) @ s) = None" by simp
  then have "re_search ((x # before) @ s) = re_search (before @ s)" by simp
  moreover have "re_search (before @ s) = re_search s"
  proof (rule Cons.IH)
    fix i assume "i < length before"
    with Cons.prems[of "Suc i"] show "match_here (drop i (before @ s)) = None" by simp
  qed
  ultimately show ?case by simp
qed

lemma find_at_range: "find_at sub i s = - 1 \<or> int i \<le> find_at sub i s"
proof (induction s arbitrary: i)
  case Nil
  show ?case by simp
next
  case (Cons x xs)
  from Cons.IH[of "Suc i"] show ?case by auto
qed

lemma End_of_search_list_nonempty: "End_of_search_list \<noteq> []"
  by (simp add: End_of_search_list_def)

lemma lazy_group_find_at:
  "lazy_group s =
     (if find_at End_of_search_list i s < 0 then None
      else Some (take (nat (find_at End_of_search_list i s - int i)) s))"
proof (induction s arbitrary: i)
  case Nil
  show ?case
    using End_of_search_list_nonempty by (auto simp: startswith_def)
next
  case (Cons x xs)
  show ?case
  proof (cases "startswith (x # xs) End_of_search_list")
    case True
    then show ?thesis by simp
  next
    case False
    let ?f = "find_at End_of_search_list (Suc i) xs"
    from find_at_range[of End_of_search_list "Suc i" xs]
    have "?f = - 1 \<or> int (Suc i) \<le> ?f" .
    then show ?thesis
    proof
      assume "?f = - 1"
      with False Cons.IH[of "Suc i"] show ?thesis by simp
    next
      assume le: "int (Suc i) \<le> ?f"
      then have "nat (?f - int i) = Suc (nat (?f - int (Suc i)))" by simp
      with le False Cons.IH[of "Suc i"] show ?thesis by simp
    qed
  qed
qed

lemma lazy_group_first:
  assumes "find_str (body @ End_of_search_list @ rest) End_of_search_list = int (length body)"
  shows "lazy_group (body @ End_of_search_list @ rest) = Some body"
  using assms lazy_group_find_at[of "body @ End_of_search_list @ rest" 0]
  by (simp add: find_str_def)

lemma re_search_first:
  assumes marker: "match_items search_starts_here marker = Some []"
    and first_marker:
      "list_all (\<lambda>i. match_items search_starts_here
                         (drop i (before @ marker @ body @ End_of_search_list @ rest)) = None)
         [0..<length before]"
    and first_end:
      "find_str (body @ End_of_search_list @ rest) End_of_search_list = int (length body)"
  shows "re_search (before @ marker @ body @ End_of_search_list @ rest) = Some body"
proof -
  let ?s = "marker @ body @ End_of_search_list @ rest"
  have none: "match_here (drop i (before @ ?s)) = None" if i: "i < length before" for i
    using first_marker i by (simp add: match_here_def list_all_iff)
  have "re_search (before @ ?s) = re_search ?s"
    by (rule re_search_skip) (rule none)
  moreover have "match_here ?s = Some body"
    using match_items_append[OF marker, of "body @ End_of_search_list @ rest"]
      lazy_group_first[OF first_end]
    by (simp add: match_here_def)
  ultimately show ?thesis by (simp add: re_search_here)
qed

text \<open>
  Claim C8. When the output of the compiler holds a match of the first marker and, after
  it, the second marker, the search succeeds with a region that stands between a match
  of the first marker and the second marker, and \<open>LoadSystemIncludes\<close> returns, for the
  lines of that region in their order, each trimmed, without the lines that are then
  empty and without those that contain \<^verbatim>\<open>(framework directory)\<close>, the two entries
  \<^verbatim>\<open>-isystem\<close> and the line. When the first marker matches nowhere before \<open>marker\<close> and the
  second marker stands nowhere in the text after it before the end of \<open>body\<close>, the region
  is \<open>body\<close>.
\<close>

theorem LoadSystemIncludes_pairs:
  assumes "clang_output env = Some (before @ marker @ body @ End_of_search_list @ rest)"
    and "match_items search_starts_here marker = Some []"
  shows "(\<exists>region before' marker' rest'.
           before @ marker @ body @ End_of_search_list @ rest
             = before' @ marker' @ region @ End_of_search_list @ rest'
           \<and> match_items search_starts_here marker' = Some []
           \<and> LoadSystemIncludes env = Inr (isystem_pairs region))
         \<and> (list_all (\<lambda>i. match_items search_starts_here
                               (drop i (before @ marker @ body @ End_of_search_list @ rest)) = None)
               [0..<length before]
              \<and> find_str (body @ End_of_search_list @ rest) End_of_search_list = int (length body)
              \<longrightarrow> LoadSystemIncludes env = Inr (isystem_pairs body))"
proof -
  let ?out = "before @ marker @ body @ End_of_search_list @ rest"
  have loop: "LoadSystemIncludes env = Inr (isystem_pairs region)"
    if "re_search ?out = Some region" for region
    using assms(1) that by (simp add: LoadSystemIncludes_def includes_loop_eq isystem_pairs_def)
  from re_search_complete[OF assms(2), of before body rest] obtain region
    where r: "re_search ?out = Some region" by blast
  from re_search_sound[OF r] obtain before' marker' rest'
    where s: "?out = before' @ marker' @ region @ End_of_search_list @ rest'"
      and m: "match_items search_starts_here marker' = Some []" by blast
  from loop[OF r] s m have some: "\<exists>region before' marker' rest'.
           ?out = before' @ marker' @ region @ End_of_search_list @ rest'
           \<and> match_items search_starts_here marker' = Some []
           \<and> LoadSystemIncludes env = Inr (isystem_pairs region)" by blast
  have first: "LoadSystemIncludes env = Inr (isystem_pairs body)"
    if "list_all (\<lambda>i. match_items search_starts_here (drop i ?out) = None) [0..<length before]"
      and "find_str (body @ End_of_search_list @ rest) End_of_search_list = int (length body)"
    using that by (intro loop re_search_first assms(2))
  from some first show ?thesis by blast
qed

theorem LoadSystemIncludes_pairs_witness:
  "clang_output clang_env = Some (''clang version 3.8.0\<newline>''
        @ ''#include <...> search starts here:''
        @ search_list_region
        @ End_of_search_list
        @ ''.\<newline>'')
   \<and> match_items search_starts_here ''#include <...> search starts here:'' = Some []
   \<and> LoadSystemIncludes clang_env =
        Inr [''-isystem'', ''/usr/include/c++/5'', ''-isystem'', ''/usr/local/include'',
             ''-isystem'', ''/usr/include'']"
proof -
  let ?before = "''clang version 3.8.0\<newline>''"
  let ?marker = "''#include <...> search starts here:''"
  let ?body = search_list_region
  let ?rest = "''.\<newline>''"
  let ?out = "?before @ ?marker @ ?body @ End_of_search_list @ ?rest"
  have out: "clang_output clang_env = Some ?out" by (simp add: clang_env_def)
  have marker: "match_items search_starts_here ?marker = Some []" by code_simp
  have first_marker:
    "list_all (\<lambda>i. match_items search_starts_here (drop i ?out) = None) [0..<length ?before]"
    by code_simp
  have first_end: "find_str (?body @ End_of_search_list @ ?rest) End_of_search_list = int (length ?body)"
    by code_simp
  have pairs: "isystem_pairs ?body
        = [''-isystem'', ''/usr/include/c++/5'', ''-isystem'', ''/usr/local/include'',
           ''-isystem'', ''/usr/include'']"
    unfolding isystem_pairs_def find_str_negative[symmetric] by code_simp
  from LoadSystemIncludes_pairs[OF out marker] first_marker first_end pairs
  have "LoadSystemIncludes clang_env =
        Inr [''-isystem'', ''/usr/include/c++/5'', ''-isystem'', ''/usr/local/include'',
             ''-isystem'', ''/usr/include'']"
    by simp
  with out marker show ?thesis by blast
qed

subsection \<open>The include directory guess\<close>

text \<open>
  Claim C1, evaluated. The directory of the script holds the script and an empty
  directory \<^verbatim>\<open>include\<close>. The walk over \<^verbatim>\<open>include\<close> yields only \<^verbatim>\<open>include\<close> itself, which
  \<open>TraverseByDepth\<close> skips as the root, so the guess is the empty list and
  \<^verbatim>\<open>-I/anchor/include\<close> is not reported.
\<close>

theorem empty_include_not_reported:
  "DirectoryOfThisScript empty_include_env = Inr ''/anchor''
   \<and> os_walk empty_include_env ''/anchor'' =
        [(''/anchor'', [''include''], [''.ycm_extra_conf.py'']), (''/anchor/include'', [], [])]
   \<and> GuessSourceDirectory empty_include_env = Inl OSError
   \<and> os_path_exists empty_include_env ''/anchor/include''
   \<and> os_walk empty_include_env ''/anchor/include'' = [(''/anchor/include'', [], [])]
   \<and> TraverseByDepth empty_include_env ''/anchor/include'' None = []
   \<and> GuessIncludeDirectory empty_include_env = Inr []
   \<and> GuessIncludeDirectory empty_include_env \<noteq> Inr [''-I/anchor/include'']"
  by code_simp

lemma startswith_sep: "startswith s ''/'' \<longleftrightarrow> (s \<noteq> [] \<and> hd s = CHR ''/'')"
  by (cases s) (auto simp: startswith_def)

lemma path_join_startswith_sep:
  "startswith a ''/'' \<Longrightarrow> startswith (path_join a b) ''/''"
  by (cases a) (auto simp: path_join_def startswith_sep)

lemma normpath_absolute:
  assumes "startswith path ''/''"
  shows "startswith (normpath path) ''/''"
proof -
  from assms have "path \<noteq> []" by (simp add: startswith_sep)
  with assms show ?thesis
    by (simp add: normpath_def Let_def startswith_sep)
qed

lemma rstrip_sep_prefix:
  assumes "h \<noteq> replicate (length h) CHR ''/''"
  shows "rstrip_sep h \<noteq> [] \<and> hd (rstrip_sep h) = hd h"
proof -
  let ?P = "\<lambda>c. c = CHR ''/''"
  have split: "h = rstrip_sep h @ rev (takeWhile ?P (rev h))"
    unfolding rstrip_sep_def
    by (metis rev_append rev_rev_ident takeWhile_dropWhile_id)
  have nonempty: "rstrip_sep h \<noteq> []"
  proof
    assume "rstrip_sep h = []"
    with split have "h = rev (takeWhile ?P (rev h))" by simp
    then have "\<forall>c \<in> set h. c = CHR ''/''"
      by (metis set_rev set_takeWhileD)
    then have "h = replicate (length h) CHR ''/''"
      by (simp add: replicate_length_same)
    with assms show False by simp
  qed
  with split have "hd h = hd (rstrip_sep h)" by (metis hd_append2)
  with nonempty show ?thesis by simp
qed

lemma dirname_absolute:
  assumes "startswith p ''/''"
  shows "startswith (dirname p) ''/''"
proof -
  from assms obtain t where p: "p = CHR ''/'' # t" by (cases p) (auto simp: startswith_sep)
  then have "CHR ''/'' \<in> set p" by simp
  then have "rfind p CHR ''/'' \<ge> 0" by (simp add: rfind_def)
  then have "nat (rfind p CHR ''/'' + 1) > 0" by simp
  then obtain k where k: "nat (rfind p CHR ''/'' + 1) = Suc k" by (metis gr0_implies_Suc)
  let ?head = "take (Suc k) p"
  from p have head: "?head \<noteq> [] \<and> hd ?head = CHR ''/''" by simp
  show ?thesis
  proof (cases "?head \<noteq> replicate (length ?head) CHR ''/''")
    case True
    from rstrip_sep_prefix[OF True] head
    have "rstrip_sep ?head \<noteq> [] \<and> hd (rstrip_sep ?head) = CHR ''/''" by simp
    with True head k show ?thesis
      by (simp add: dirname_def path_split_def Let_def startswith_sep)
  next
    case False
    with head k show ?thesis
      by (simp add: dirname_def path_split_def Let_def startswith_sep)
  qed
qed

lemma DirectoryOfThisScript_absolute:
  assumes "DirectoryOfThisScript env = Inr anchor"
    and "\<forall>cwd. getcwd env = Some cwd \<longrightarrow> startswith cwd ''/''"
  shows "startswith anchor ''/''"
proof -
  from assms(1) obtain path where path: "abspath env (script_file env) = Inr path"
    and anchor: "anchor = dirname path"
    by (cases "abspath env (script_file env)") (auto simp: DirectoryOfThisScript_def bind_result_def)
  have "startswith path ''/''"
  proof (cases "startswith (script_file env) ''/''")
    case True
    with path show ?thesis by (auto simp: abspath_def intro: normpath_absolute)
  next
    case False
    with path obtain cwd where cwd: "getcwd env = Some cwd"
      and p: "path = normpath (path_join cwd (script_file env))"
      by (auto simp: abspath_def split: option.splits)
    from cwd assms(2) have "startswith cwd ''/''" by blast
    with p show ?thesis by (auto intro: normpath_absolute path_join_startswith_sep)
  qed
  with anchor show ?thesis by (simp add: dirname_absolute)
qed

lemma traverse_loop_filter:
  assumes "exts \<noteq> {}"
  shows "traverse_loop (Some exts) walk False result =
     foldl set_add result
       (map fst (filter (\<lambda>(root_dir, subdirs, file_list). subdir_extensions file_list \<inter> exts \<noteq> {}) walk))"
proof (induction walk arbitrary: result)
  case Nil
  show ?case by simp
next
  case (Cons entry walk)
  obtain root_dir subdirs file_list where e: "entry = (root_dir, subdirs, file_list)"
    by (cases entry) auto
  show ?case
    unfolding e using assms by (simp add: Cons.IH)
qed

lemma header_extensions_nonempty: "lower ` set HEADER_EXTENSIONS \<noteq> {}"
  by (simp add: HEADER_EXTENSIONS_def)

lemma set_foldl_set_add: "set (foldl set_add acc xs) = set acc \<union> set xs"
  by (induction xs arbitrary: acc) (auto simp: set_add_def)

lemma distinct_foldl_set_add: "distinct acc \<Longrightarrow> distinct (foldl set_add acc xs)"
  by (induction xs arbitrary: acc) (auto simp: set_add_def)

lemma distinct_singleton:
  assumes "distinct xs" and "set xs = {x}"
  shows "xs = [x]"
proof (cases xs)
  case Nil
  with assms(2) show ?thesis by simp
next
  case (Cons a rest)
  with assms(2) have a: "a = x" and sub: "set rest \<subseteq> {x}" by auto
  from Cons assms(1) a have "x \<notin> set rest" by simp
  with sub have "rest = []" by (cases rest) auto
  with Cons a show ?thesis by simp
qed

text \<open>
  Claim C2, as amended. With \<open>anchor\<close> the directory of the script: when the working
  directory, if there is one, is absolute, \<^verbatim>\<open>src\<close> exists below \<open>anchor\<close> and neither
  \<^verbatim>\<open>include\<close> nor \<^verbatim>\<open>includes\<close> does, the guess reports, each once and with \<^verbatim>\<open>-I\<close> before it, the
  directories that the walk yields after \<^verbatim>\<open>src\<close> itself and that directly hold a file with a
  header extension. The files directly in \<^verbatim>\<open>src\<close> play no part: when the walk yields \<^verbatim>\<open>src\<close>
  alone, the guess is the empty list. Nothing is said about the order of the entries,
  which is that of a Python set.
\<close>

theorem GuessIncludeDirectory_below_src:
  assumes anchor: "DirectoryOfThisScript env = Inr anchor"
    and cwd: "\<forall>cwd. getcwd env = Some cwd \<longrightarrow> startswith cwd ''/''"
    and src: "os_path_exists env (path_join anchor ''src'')"
    and no_include: "\<not> os_path_exists env (path_join anchor ''include'')"
    and no_includes: "\<not> os_path_exists env (path_join anchor ''includes'')"
    and walk: "os_walk env (path_join anchor ''src'') = (root_dir, subdirs, file_list) # below"
  shows "(\<exists>dirs. GuessIncludeDirectory env = Inr (map (\<lambda>include_dir. ''-I'' @ include_dir) dirs)
            \<and> distinct dirs
            \<and> set dirs =
                 set (map fst
                        (filter (\<lambda>(root_dir, subdirs, file_list).
                                    subdir_extensions file_list \<inter> lower ` set HEADER_EXTENSIONS \<noteq> {})
                           below)))
         \<and> (below = [] \<longrightarrow> GuessIncludeDirectory env = Inr [])"
proof -
  let ?src = "path_join anchor ''src''"
  let ?with_headers = "map fst
           (filter (\<lambda>(root_dir, subdirs, file_list).
                       subdir_extensions file_list \<inter> lower ` set HEADER_EXTENSIONS \<noteq> {})
              below)"
  have abs: "startswith ?src ''/''"
    by (intro path_join_startswith_sep DirectoryOfThisScript_absolute[OF anchor cwd])
  have guess: "GuessSourceDirectory env = Inr ?src"
    using src anchor by (simp add: GuessSourceDirectory_def bind_result_Inr)
  have joined: "path_join anchor ?src = ?src"
    using abs by (simp add: path_join_def)
  have scan: "TraverseByDepth env ?src (Some (set HEADER_EXTENSIONS)) = foldl set_add [] ?with_headers"
    using walk header_extensions_nonempty
    by (simp add: TraverseByDepth_def truthy_def HEADER_EXTENSIONS_def traverse_loop_filter)
  have external: "external_loop env [''include'', ''includes''] = Inr []"
    using no_include no_includes anchor by (simp add: bind_result_Inr)
  have result: "GuessIncludeDirectory env =
           Inr (map (\<lambda>include_dir. ''-I'' @ include_dir) (foldl set_add [] ?with_headers))"
    by (simp add: GuessIncludeDirectory_def anchor guess joined scan external Let_def
        bind_result_Inr del: external_loop.simps)
  have "distinct (foldl set_add [] ?with_headers)"
    by (simp add: distinct_foldl_set_add)
  moreover have "set (foldl set_add [] ?with_headers) = set ?with_headers"
    by (simp add: set_foldl_set_add)
  ultimately have "\<exists>dirs. GuessIncludeDirectory env = Inr (map (\<lambda>include_dir. ''-I'' @ include_dir) dirs)
            \<and> distinct dirs \<and> set dirs = set ?with_headers"
    using result by blast
  moreover have "GuessIncludeDirectory env = Inr []" if "below = []"
    using result that by simp
  ultimately show ?thesis by blast
qed

theorem GuessIncludeDirectory_below_src_witness:
  "DirectoryOfThisScript src_subdir_env = Inr ''/anchor''
   \<and> getcwd src_subdir_env = Some ''/''
   \<and> os_path_exists src_subdir_env (path_join ''/anchor'' ''src'')
   \<and> os_walk src_subdir_env (path_join ''/anchor'' ''src'')
        = (''/anchor/src'', [''sub'', ''impl''], [''a.hpp'', ''main.c''])
            # [(''/anchor/src/sub'', [], [''b.H'']), (''/anchor/src/impl'', [], [''b.c''])]
   \<and> GuessIncludeDirectory src_subdir_env = Inr [''-I/anchor/src/sub'']
   \<and> os_walk src_header_env (path_join ''/anchor'' ''src'')
        = (''/anchor/src'', [], [''a.hpp'']) # []
   \<and> GuessIncludeDirectory src_header_env = Inr []"
proof -
  let ?E = src_subdir_env
  let ?F = src_header_env
  let ?below = "[(''/anchor/src/sub'', [], [''b.H'']), (''/anchor/src/impl'', [], [''b.c''])]"
  have e0: "DirectoryOfThisScript ?E = Inr ''/anchor''" by code_simp
  have e1': "getcwd ?E = Some ''/''" by (simp add: src_subdir_env_def)
  then have e1: "\<forall>cwd. getcwd ?E = Some cwd \<longrightarrow> startswith cwd ''/''"
    by (simp add: startswith_def)
  have e2: "os_path_exists ?E (path_join ''/anchor'' ''src'')" by code_simp
  have e3: "\<not> os_path_exists ?E (path_join ''/anchor'' ''include'')" by code_simp
  have e4: "\<not> os_path_exists ?E (path_join ''/anchor'' ''includes'')" by code_simp
  have e5: "os_walk ?E (path_join ''/anchor'' ''src'')
        = (''/anchor/src'', [''sub'', ''impl''], [''a.hpp'', ''main.c'']) # ?below" by code_simp
  have e6: "map fst
              (filter (\<lambda>(root_dir, subdirs, file_list).
                          subdir_extensions file_list \<inter> lower ` set HEADER_EXTENSIONS \<noteq> {})
                 ?below) = [''/anchor/src/sub'']" by code_simp
  have f0: "DirectoryOfThisScript ?F = Inr ''/anchor''" by code_simp
  have "getcwd ?F = Some ''/''" by (simp add: src_header_env_def)
  then have f1: "\<forall>cwd. getcwd ?F = Some cwd \<longrightarrow> startswith cwd ''/''"
    by (simp add: startswith_def)
  have f2: "os_path_exists ?F (path_join ''/anchor'' ''src'')" by code_simp
  have f3: "\<not> os_path_exists ?F (path_join ''/anchor'' ''include'')" by code_simp
  have f4: "\<not> os_path_exists ?F (path_join ''/anchor'' ''includes'')" by code_simp
  have f5: "os_walk ?F (path_join ''/anchor'' ''src'')
        = (''/anchor/src'', [], [''a.hpp'']) # []" by code_simp
  from GuessIncludeDirectory_below_src[OF e0 e1 e2 e3 e4 e5] obtain dirs
    where r: "GuessIncludeDirectory ?E = Inr (map (\<lambda>include_dir. ''-I'' @ include_dir) dirs)"
      and d: "distinct dirs" and s: "set dirs = {''/anchor/src/sub''}"
    unfolding e6 by auto
  from distinct_singleton[OF d s] r
  have E: "GuessIncludeDirectory ?E = Inr [''-I/anchor/src/sub'']" by simp
  from GuessIncludeDirectory_below_src[OF f0 f1 f2 f3 f4 f5]
  have F: "GuessIncludeDirectory ?F = Inr []" by simp
  from e0 e1' e2 e5 E f5 F show ?thesis by blast
qed

text \<open>
  The claim as it was stated fails where \<^verbatim>\<open>src\<close> holds \<^verbatim>\<open>a.hpp\<close> and nothing else: the guess
  is the empty list, not \<^verbatim>\<open>-I/anchor/src\<close>.
\<close>

theorem src_root_counterexample:
  "DirectoryOfThisScript src_header_env = Inr ''/anchor''
   \<and> os_walk src_header_env ''/anchor'' =
        [(''/anchor'', [''src''], [''.ycm_extra_conf.py'']), (''/anchor/src'', [], [''a.hpp''])]
   \<and> IsHeaderFile ''a.hpp''
   \<and> GuessSourceDirectory src_header_env = Inr ''/anchor/src''
   \<and> TraverseByDepth src_header_env ''/anchor/src'' (Some (set HEADER_EXTENSIONS)) = []
   \<and> GuessIncludeDirectory src_header_env = Inr []
   \<and> GuessIncludeDirectory src_header_env \<noteq> Inr [''-I/anchor/src'']"
  by code_simp

end
